theory Spec2Isabelle
  imports Complex_Main "HOL-Library.Word" "HOL-Library.Multiset"
begin

section \<open>Split miniImageNet training driver: episodic memory and task layout\<close>

text \<open>
  A shallow embedding of \<^verbatim>\<open>conv_split_miniImagenet.py\<close>: the task-label
  generation, the episodic-memory bookkeeping and the replay-index selection of
  \<^verbatim>\<open>train_task_sequence\<close>. Python integers are \<open>int\<close>, numpy arrays are
  lists, every raise and \<^verbatim>\<open>sys.exit\<close> is a value of \<open>error\<close>.
\<close>

subsection \<open>Errors and results\<close>

datatype error =
    SystemExit int
  | ValueError
  | IndexError
  | ZeroDivisionError
  | UnboundLocalError
  | AssertionError

type_synonym 'a result = "error + 'a"

definition rbind :: "'a result \<Rightarrow> ('a \<Rightarrow> 'b result) \<Rightarrow> 'b result" where
  "rbind m f = (case m of Inl e \<Rightarrow> Inl e | Inr x \<Rightarrow> f x)"

subsection \<open>Module constants\<close>

definition TOTAL_CLASSES :: int where
  "TOTAL_CLASSES = 100"

definition K_FOR_CROSS_VAL :: int where
  "K_FOR_CROSS_VAL = 3"

text \<open>
  \<^verbatim>\<open>MULTI_TASK\<close>, \<^verbatim>\<open>COUNT_VIOLATONS\<close>, \<^verbatim>\<open>GRAD_CHECK\<close>, \<^verbatim>\<open>TIME_MY_METHOD\<close>
  and \<^verbatim>\<open>MEASURE_PERF_ON_EPS_MEMORY\<close> are \<^verbatim>\<open>False\<close> in the module and no option
  sets them, so the code they guard (lines 268 to 277, 302, 662 to 685, 714 to 720, 745
  to 747, 755 to 765) never runs and has no counterpart below.
\<close>

subsection \<open>Python and numpy primitives\<close>

text \<open>\<^verbatim>\<open>np.arange(lo, hi)\<close>: the integers from \<open>lo\<close> up to \<open>hi - 1\<close>, empty when \<open>hi \<le> lo\<close>.\<close>

definition np_arange :: "int \<Rightarrow> int \<Rightarrow> int list" where
  "np_arange lo hi = [lo..hi - 1]"

text \<open>Python slicing \<^verbatim>\<open>xs[a:b]\<close>: negative bounds count from the end, all bounds are clamped.\<close>

definition slice_bound :: "nat \<Rightarrow> int \<Rightarrow> nat" where
  "slice_bound n a = (if a < 0 then nat (max (a + int n) 0) else min (nat a) n)"

definition py_slice :: "'a list \<Rightarrow> int \<Rightarrow> int \<Rightarrow> 'a list" where
  "py_slice xs a b =
     (let lo = slice_bound (length xs) a; hi = slice_bound (length xs) b
      in take (hi - lo) (drop lo xs))"

text \<open>
  Reading and writing one slot of a numpy array: an index in \<open>[-n, n)\<close> is accepted,
  a negative one counting from the end; anything else raises IndexError.
\<close>

definition np_getitem :: "'a list \<Rightarrow> int \<Rightarrow> 'a result" where
  "np_getitem xs i =
     (let n = int (length xs); j = (if i < 0 then i + n else i)
      in if 0 \<le> j \<and> j < n then Inr (xs ! nat j) else Inl IndexError)"

definition np_setitem :: "'a list \<Rightarrow> int \<Rightarrow> 'a \<Rightarrow> 'a list result" where
  "np_setitem xs i v =
     (let n = int (length xs); j = (if i < 0 then i + n else i)
      in if 0 \<le> j \<and> j < n then Inr (xs[nat j := v]) else Inl IndexError)"

text \<open>Fancy indexing \<^verbatim>\<open>xs[idx]\<close> with an index array: one read per index, in order.\<close>

fun np_take :: "'a list \<Rightarrow> int list \<Rightarrow> 'a list result" where
  "np_take xs [] = Inr []"
| "np_take xs (i # is) =
     rbind (np_getitem xs i) (\<lambda>v. rbind (np_take xs is) (\<lambda>vs. Inr (v # vs)))"

subsection \<open>The numpy random generator\<close>

text \<open>
  The state of the global generator is the stream of draws still to come, and
  \<open>random_interval g m\<close> takes the next one as a number in \<open>[0, m]\<close>. Which stream a
  seed yields is a parameter of the model (\<open>seed_stream\<close> below). Every sequence of
  bounded draws the library can produce is the sequence of some stream, and the theorems
  hold for every stream.
\<close>

type_synonym rng = "nat \<Rightarrow> nat"

definition random_interval :: "rng \<Rightarrow> nat \<Rightarrow> nat \<times> rng" where
  "random_interval g m = (g 0 mod Suc m, (\<lambda>i. g (Suc i)))"

definition swap_at :: "nat \<Rightarrow> nat \<Rightarrow> 'a list \<Rightarrow> 'a list" where
  "swap_at i j xs = xs[i := xs ! j, j := xs ! i]"

text \<open>
  \<^verbatim>\<open>np.random.shuffle(x)\<close>: for \<open>i\<close> from \<open>len(x) - 1\<close> down to \<open>1\<close>, draw \<open>j\<close> in
  \<open>[0, i]\<close> and exchange \<open>x[i]\<close> and \<open>x[j]\<close>.
\<close>

fun shuffle_from :: "nat \<Rightarrow> rng \<Rightarrow> 'a list \<Rightarrow> 'a list \<times> rng" where
  "shuffle_from 0 g xs = (xs, g)"
| "shuffle_from (Suc i) g xs =
     (case random_interval g (Suc i) of
        (j, g') \<Rightarrow> shuffle_from i g' (swap_at (Suc i) j xs))"

definition np_random_shuffle :: "rng \<Rightarrow> 'a list \<Rightarrow> 'a list \<times> rng" where
  "np_random_shuffle g xs = shuffle_from (length xs - 1) g xs"

text \<open>
  \<^verbatim>\<open>np.random.choice(a, size, replace=False)\<close> with an integer population \<open>a\<close>, the
  only form this file uses: the first \<open>size\<close> entries of a permutation of \<open>arange(a)\<close>;
  ValueError for an empty population with a non-empty sample, for a sample larger than
  the population and for a negative size.
\<close>

definition np_random_choice :: "rng \<Rightarrow> int \<Rightarrow> int \<Rightarrow> (int list \<times> rng) result" where
  "np_random_choice g a sz =
     (if (a \<le> 0 \<and> sz \<noteq> 0) \<or> a < sz \<or> sz < 0 then Inl ValueError
      else case np_random_shuffle g (np_arange 0 a) of
             (p, g') \<Rightarrow> Inr (take (nat sz) p, g'))"

text \<open>
  \<^verbatim>\<open>np.random.seed(s)\<close> replaces the generator state \<open>g\<close> by the stream of the seed;
  it accepts \<open>0 \<le> s < 2^32\<close> and raises ValueError otherwise. \<^verbatim>\<open>random.seed(s)\<close>
  does the same for Python's generator and accepts every integer.
\<close>

definition np_random_seed :: "(int \<Rightarrow> rng) \<Rightarrow> int \<Rightarrow> rng \<Rightarrow> rng result" where
  "np_random_seed gen s g = (if 0 \<le> s \<and> s < 2 ^ 32 then Inr (gen s) else Inl ValueError)"

definition py_random_seed :: "(int \<Rightarrow> rng) \<Rightarrow> int \<Rightarrow> rng \<Rightarrow> rng" where
  "py_random_seed gen s g = gen s"

subsection \<open>Command-line arguments and the model object\<close>

datatype imp_method =
    VAN | PI | EWC | MAS | RWALK | M_EWC | S_GEM | A_GEM | FTR_EXT | PNN
  | ER_Reservoir | ER_Ringbuffer | SUBSPACE_PROJ | ER_SUBSPACE | PROJ_SUBSPACE_GP
  | ER_SUBSPACE_GP

record args =
  num_runs :: int
  train_iters :: int
  batch_size :: int
  random_seed :: int
  mem_size :: int
  eps_mem_batch :: int
  num_tasks :: int
  online_cross_val :: bool
  train_single_epoch :: bool
  cross_validate_mode :: bool

record model =
  model_num_tasks :: int
  model_imp_method :: imp_method

text \<open>
  Lines 860 to 863 and 906 of \<^verbatim>\<open>main\<close>: the number of tasks the model is built
  with is not \<^verbatim>\<open>args.num_tasks\<close>.
\<close>

definition main_model :: "args \<Rightarrow> imp_method \<Rightarrow> model" where
  "main_model a meth =
     \<lparr>model_num_tasks =
        (if online_cross_val a then K_FOR_CROSS_VAL else num_tasks a - K_FOR_CROSS_VAL),
      model_imp_method = meth\<rparr>"

subsection \<open>Task labels (lines 196 to 208)\<close>

definition gen_task_labels :: "rng \<Rightarrow> args \<Rightarrow> model \<Rightarrow> (int list list \<times> rng) result" where
  "gen_task_labels g a m =
     (if num_tasks a = 0 then Inl ZeroDivisionError
      else
        let classes_per_task = TOTAL_CLASSES div num_tasks a;
            total_classes = classes_per_task * model_num_tasks m;
            class_label_offset = K_FOR_CROSS_VAL * classes_per_task;
            label_array =
              (if online_cross_val a then np_arange 0 total_classes
               else np_arange class_label_offset (total_classes + class_label_offset))
        in case np_random_shuffle g label_array of
             (shuffled, g') \<Rightarrow>
               Inr (map (\<lambda>tt. py_slice shuffled (int tt * classes_per_task)
                                         (int tt * classes_per_task + classes_per_task))
                        [0..<nat (model_num_tasks m)],
                    g'))"

subsection \<open>Run state\<close>

text \<open>
  A label is the one-hot row of an exemplar (entries 0 and 1); an image is any value
  with a zero (\<^verbatim>\<open>np.zeros\<close>). \<open>count_cls\<close> is an \<^verbatim>\<open>np.int32\<close> array, so
  its entries are 32-bit words read with \<open>sint\<close>. The two seen-so-far counters are
  Python integers.
\<close>

type_synonym label = "int list"

record 'a run_state =
  episodic_images :: "'a list"
  episodic_labels :: "label list"
  count_cls :: "32 word list"
  episodic_filled_counter :: int
  examples_seen_so_far :: int
  np_rng :: rng
  py_rng :: rng

datatype loss = Finite real | PosInf | NegInf | NaN

fun isnan :: "loss \<Rightarrow> bool" where
  "isnan NaN = True"
| "isnan _ = False"

fun isfinite :: "loss \<Rightarrow> bool" where
  "isfinite (Finite _) = True"
| "isfinite _ = False"

text \<open>
  What the driver gets from its collaborators: the stream each seed yields, the
  training set of a task (\<^verbatim>\<open>load_task_specific_data\<close> on \<^verbatim>\<open>datasets[0]['train']\<close>),
  the loss \<^verbatim>\<open>sess.run\<close> returns at run, task and iteration, and what
  \<^verbatim>\<open>generate_projection_matrix\<close> and \<^verbatim>\<open>model.task_updates\<close> do to the numpy
  generator. The session itself draws from the framework's generator, not from numpy's.
\<close>

record 'a env =
  seed_stream :: "int \<Rightarrow> rng"
  py_seed_stream :: "int \<Rightarrow> rng"
  load_task_specific_data :: "int list \<Rightarrow> 'a list \<times> label list"
  session_loss :: "nat \<Rightarrow> nat \<Rightarrow> nat \<Rightarrow> loss"
  generate_projection_matrix :: "rng \<Rightarrow> rng"
  task_updates :: "rng \<Rightarrow> rng"

definition use_episodic_memory :: "model \<Rightarrow> bool" where
  "use_episodic_memory m =
     (model_imp_method m \<in> {A_GEM, ER_Ringbuffer, ER_Reservoir, ER_SUBSPACE, ER_SUBSPACE_GP})"

definition classes_per_task :: "args \<Rightarrow> int" where
  "classes_per_task a = TOTAL_CLASSES div num_tasks a"

definition total_classes :: "args \<Rightarrow> model \<Rightarrow> int" where
  "total_classes a m = classes_per_task a * model_num_tasks m"

definition episodic_mem_size :: "args \<Rightarrow> model \<Rightarrow> int" where
  "episodic_mem_size a m = mem_size a * total_classes a m"

text \<open>\<^verbatim>\<open>for x in xs\<close> with a body that may raise: the first error ends the loop.\<close>

fun for_each :: "('i \<Rightarrow> 's \<Rightarrow> 's result) \<Rightarrow> 'i list \<Rightarrow> 's \<Rightarrow> 's result" where
  "for_each f [] s = Inr s"
| "for_each f (x # xs) s = rbind (f x s) (for_each f xs)"

subsection \<open>Logit masks\<close>

text \<open>
  \<^verbatim>\<open>logit_mask[labels] = 1.0\<close> on a mask of \<^verbatim>\<open>TOTAL_CLASSES\<close> entries (and the
  same on a row of \<^verbatim>\<open>nd_logit_mask\<close>): IndexError unless every label is in
  \<open>[-TOTAL_CLASSES, TOTAL_CLASSES)\<close>. The masks feed the session only, so their content
  is not part of the state.
\<close>

definition set_logit_mask :: "int list \<Rightarrow> unit result" where
  "set_logit_mask labels =
     (if list_all (\<lambda>c. - TOTAL_CLASSES \<le> c \<and> c < TOTAL_CLASSES) labels then Inr ()
      else Inl IndexError)"

text \<open>
  \<^verbatim>\<open>test_task_sequence\<close>, lines 767 to 813: the tasks up to \<open>task\<close> are evaluated,
  each with the mask of its labels. The accuracies it returns are not part of the state.
\<close>

definition test_task_sequence :: "int list list \<Rightarrow> nat \<Rightarrow> unit result" where
  "test_task_sequence test_tasks task =
     for_each (\<lambda>labels u. set_logit_mask labels) (take (Suc task) test_tasks) ()"

text \<open>
  Lines 321 to 337: in the single-epoch mode without cross-validation the performance is
  snapshotted at the first 21 iterations and at every 50th afterwards, and the mask of
  the current task is set again.
\<close>

definition snapshot :: "args \<Rightarrow> int list list \<Rightarrow> nat \<Rightarrow> nat \<Rightarrow> unit result" where
  "snapshot a task_labels task iters =
     (if train_single_epoch a \<and> \<not> cross_validate_mode a then
        if iters \<le> 20 \<or> (20 < iters \<and> iters mod 50 = 0) then
          rbind (test_task_sequence task_labels task) (\<lambda>_. set_logit_mask (task_labels ! task))
        else Inr ()
      else Inr ())"

subsection \<open>The FIFO ring buffer\<close>

text \<open>
  \<^verbatim>\<open>utils.update_fifo_buffer\<close> is imported; its body is not part of the source file.
  The definitions of this subsection follow sections 3, 4.1 and 7 of the specification.
\<close>

text \<open>
  Modelled from the spec: the class of an exemplar is the class of
  \<^verbatim>\<open>batch_task_labels\<close> its one-hot label marks; \<open>class_position\<close> returns it with
  its position in that list.
\<close>

definition belongs :: "label \<Rightarrow> int \<Rightarrow> bool" where
  "belongs lab c = (0 \<le> c \<and> c < int (length lab) \<and> lab ! nat c = 1)"

fun class_position :: "label \<Rightarrow> int list \<Rightarrow> nat \<Rightarrow> (nat \<times> int) option" where
  "class_position lab [] i = None"
| "class_position lab (c # cs) i =
     (if belongs lab c then Some (i, c) else class_position lab cs (Suc i))"

text \<open>
  Modelled from the spec: the quota regions of the classes of a task follow each other in
  the order of the task's label list, from the base offset the caller passes.
\<close>

definition class_offset :: "int \<Rightarrow> int \<Rightarrow> nat \<Rightarrow> int" where
  "class_offset base quota i = base + int i * quota"

text \<open>
  Modelled from the spec: the target slot of a write is
  \<open>class_offset[c] + (count_cls[c] % per_class_quota)\<close>; a class without a region and a
  non-positive quota are precondition failures.
\<close>

definition fifo_slot :: "label \<Rightarrow> int list \<Rightarrow> int \<Rightarrow> int \<Rightarrow> 32 word list \<Rightarrow> (int \<times> int) result" where
  "fifo_slot lab batch_task_labels quota base cnt =
     (case class_position lab batch_task_labels 0 of
        None \<Rightarrow> Inl AssertionError
      | Some (i, c) \<Rightarrow>
          if quota \<le> 0 then Inl AssertionError
          else rbind (np_getitem cnt c)
                 (\<lambda>n. Inr (class_offset base quota i + sint n mod quota, c)))"

text \<open>
  Modelled from the spec: a write overwrites the image and the label of the target slot
  in place and increments \<open>count_cls[c]\<close>, on every write.
\<close>

definition fifo_write ::
  "'a \<times> label \<Rightarrow> int list \<Rightarrow> int \<Rightarrow> int \<Rightarrow> 'a list \<times> label list \<times> 32 word list
     \<Rightarrow> ('a list \<times> label list \<times> 32 word list) result" where
  "fifo_write ex batch_task_labels quota base buf =
     (case buf of (imgs, labs, cnt) \<Rightarrow>
        rbind (fifo_slot (snd ex) batch_task_labels quota base cnt) (\<lambda>(slot, c).
        rbind (np_setitem imgs slot (fst ex)) (\<lambda>imgs'.
        rbind (np_setitem labs slot (snd ex)) (\<lambda>labs'.
        rbind (np_getitem cnt c) (\<lambda>n.
        rbind (np_setitem cnt c (n + 1)) (\<lambda>cnt'.
        Inr (imgs', labs', cnt')))))))"

text \<open>
  Modelled from the spec: the write is invoked once per exemplar. The call sites hand
  over the whole mini-batch, so it is applied to each exemplar of
  \<^verbatim>\<open>zip(current_images, current_labels)\<close> in order.
\<close>

definition update_fifo_buffer ::
  "'a list \<Rightarrow> label list \<Rightarrow> 'a list \<Rightarrow> label list \<Rightarrow> int list \<Rightarrow> int \<Rightarrow> 32 word list \<Rightarrow> int
     \<Rightarrow> ('a list \<times> label list \<times> 32 word list) result" where
  "update_fifo_buffer current_images current_labels imgs labs batch_task_labels quota cnt base =
     for_each (\<lambda>ex. fifo_write ex batch_task_labels quota base)
       (zip current_images current_labels) (imgs, labs, cnt)"

subsection \<open>The reservoir buffer\<close>

text \<open>
  Modelled from the spec: \<^verbatim>\<open>utils.update_reservior\<close> is imported, its body is not
  part of the source file. Following sections 3 and 4.2 of the specification: while
  \<open>examples_seen_so_far < capacity\<close> the sample is written at slot
  \<open>examples_seen_so_far\<close>; afterwards it is admitted with probability
  \<open>capacity / (examples_seen_so_far + 1)\<close> (a draw in \<open>[0, seen]\<close> that falls below
  \<open>capacity\<close>) and then written at a slot drawn from \<open>[0, capacity)\<close>, and is discarded
  otherwise. The counter is passed by value and is not changed here.
\<close>

definition update_reservior ::
  "'a \<Rightarrow> label \<Rightarrow> 'a list \<Rightarrow> label list \<Rightarrow> int \<Rightarrow> int \<Rightarrow> rng
     \<Rightarrow> ('a list \<times> label list \<times> rng) result" where
  "update_reservior im lab imgs labs capacity seen g =
     (if seen < capacity then
        rbind (np_setitem imgs seen im) (\<lambda>imgs'.
        rbind (np_setitem labs seen lab) (\<lambda>labs'.
        Inr (imgs', labs', g)))
      else
        case random_interval g (nat seen) of
          (u, g1) \<Rightarrow>
            if int u < capacity then
              case random_interval g1 (nat (capacity - 1)) of
                (j, g2) \<Rightarrow>
                  rbind (np_setitem imgs (int j) im) (\<lambda>imgs'.
                  rbind (np_setitem labs (int j) lab) (\<lambda>labs'.
                  Inr (imgs', labs', g2)))
            else Inr (imgs, labs, g1))"

text \<open>Lines 528 to 530: one offer per exemplar of the batch, the counter bumped after each.\<close>

fun reservoir_update_loop :: "('a \<times> label) list \<Rightarrow> int \<Rightarrow> 'a run_state \<Rightarrow> 'a run_state result" where
  "reservoir_update_loop [] capacity st = Inr st"
| "reservoir_update_loop ((er_x, er_y) # rest) capacity st =
     rbind (update_reservior er_x er_y (episodic_images st) (episodic_labels st) capacity
              (examples_seen_so_far st) (np_rng st))
       (\<lambda>(imgs', labs', g').
          reservoir_update_loop rest capacity
            (st\<lparr>episodic_images := imgs', episodic_labels := labs', np_rng := g',
                examples_seen_so_far := examples_seen_so_far st + 1\<rparr>))"

subsection \<open>Replay index selection\<close>

text \<open>A-GEM, lines 459 to 463: no shuffle follows the selection.\<close>

definition agem_mem_sample_mask :: "rng \<Rightarrow> int \<Rightarrow> int \<Rightarrow> (int list \<times> rng) result" where
  "agem_mem_sample_mask g filled_counter k =
     (if filled_counter \<le> k then Inr (np_arange 0 filled_counter, g)
      else np_random_choice g filled_counter k)"

text \<open>ER-Reservoir, lines 508 to 513.\<close>

definition reservoir_mem_filled :: "int \<Rightarrow> int \<Rightarrow> int" where
  "reservoir_mem_filled seen mem = (if seen < mem then seen else mem)"

definition er_reservoir_indices :: "rng \<Rightarrow> int \<Rightarrow> int \<Rightarrow> int \<Rightarrow> (int list \<times> rng) result" where
  "er_reservoir_indices g seen mem k =
     (let mem_filled_so_far = reservoir_mem_filled seen mem
      in rbind (if mem_filled_so_far < k then Inr (np_arange 0 mem_filled_so_far, g)
                else np_random_choice g mem_filled_so_far k)
           (\<lambda>(er_mem_indices, g'). Inr (np_random_shuffle g' er_mem_indices)))"

text \<open>ER-Ringbuffer, lines 534 to 536 (and ER-SUBSPACE-GP, lines 631 to 633).\<close>

definition ringbuffer_mem_filled :: "int \<Rightarrow> int \<Rightarrow> int" where
  "ringbuffer_mem_filled filled_counter mem = (if filled_counter \<le> mem then filled_counter else mem)"

definition er_ringbuffer_indices :: "rng \<Rightarrow> int \<Rightarrow> int \<Rightarrow> int \<Rightarrow> (int list \<times> rng) result" where
  "er_ringbuffer_indices g filled_counter mem k =
     (let mem_filled_so_far = ringbuffer_mem_filled filled_counter mem
      in rbind (if mem_filled_so_far \<le> k then Inr (np_arange 0 mem_filled_so_far, g)
                else np_random_choice g mem_filled_so_far k)
           (\<lambda>(er_mem_indices, g'). Inr (np_random_shuffle g' er_mem_indices)))"

text \<open>
  ER-SUBSPACE and ER-SUBSPACE-GP, lines 560 to 563 and 605 to 608: the region of one
  earlier task \<open>tt\<close>, drawn from \<open>arange(task)\<close>.
\<close>

definition task_region_indices :: "rng \<Rightarrow> nat \<Rightarrow> int \<Rightarrow> int \<Rightarrow> (int list \<times> rng) result" where
  "task_region_indices g task msize cpt =
     rbind (np_random_choice g (int task) 1) (\<lambda>(picked, g1).
     rbind (np_getitem picked 0) (\<lambda>tt.
       let mem_offset = tt * msize * cpt
       in Inr (np_random_shuffle g1 (np_arange mem_offset (mem_offset + msize * cpt)))))"

text \<open>The index arrays one training step reads the episodic memory with, by branch.\<close>

definition replay_indices ::
  "args \<Rightarrow> model \<Rightarrow> nat \<Rightarrow> 'a run_state \<Rightarrow> (int list list \<times> rng) result" where
  "replay_indices a m task st =
     (let g = np_rng st; k = eps_mem_batch a
      in case model_imp_method m of
           A_GEM \<Rightarrow>
             if task = 0 then Inr ([], g)
             else rbind (agem_mem_sample_mask g (episodic_filled_counter st) k)
                    (\<lambda>(idx, g'). Inr ([idx], g'))
         | ER_Reservoir \<Rightarrow>
             rbind (er_reservoir_indices g (examples_seen_so_far st) (episodic_mem_size a m) k)
               (\<lambda>(idx, g'). Inr ([idx], g'))
         | ER_Ringbuffer \<Rightarrow>
             rbind (er_ringbuffer_indices g (episodic_filled_counter st) (episodic_mem_size a m) k)
               (\<lambda>(idx, g'). Inr ([idx], g'))
         | ER_SUBSPACE \<Rightarrow>
             if task > 0 then
               rbind (task_region_indices g task (mem_size a) (classes_per_task a))
                 (\<lambda>(idx, g'). Inr ([idx], g'))
             else Inr ([], g)
         | ER_SUBSPACE_GP \<Rightarrow>
             if task > 0 then
               rbind (task_region_indices g task (mem_size a) (classes_per_task a))
                 (\<lambda>(idx1, g1).
               rbind (er_ringbuffer_indices g1 (episodic_filled_counter st)
                        (episodic_mem_size a m) k)
                 (\<lambda>(idx2, g2). Inr ([idx1, idx2], g2)))
             else Inr ([], g)
         | _ \<Rightarrow> Inr ([], g))"

definition read_memory :: "'a run_state \<Rightarrow> int list \<Rightarrow> unit result" where
  "read_memory st idx =
     rbind (np_take (episodic_images st) idx) (\<lambda>_.
     rbind (np_take (episodic_labels st) idx) (\<lambda>_. Inr ()))"

subsection \<open>One training step\<close>

text \<open>The memory update that ends each branch (lines 483, 528, 552, 595, 648).\<close>

definition memory_update ::
  "args \<Rightarrow> model \<Rightarrow> int list list \<Rightarrow> nat \<Rightarrow> 'a list \<Rightarrow> label list \<Rightarrow> 'a run_state
     \<Rightarrow> 'a run_state result" where
  "memory_update a m task_labels task bxs bys st =
     (if model_imp_method m \<in> {A_GEM, ER_Ringbuffer, ER_SUBSPACE, ER_SUBSPACE_GP} then
        rbind (update_fifo_buffer bxs bys (episodic_images st) (episodic_labels st)
                 (task_labels ! task) (mem_size a) (count_cls st) (episodic_filled_counter st))
          (\<lambda>(imgs', labs', cnt').
             Inr (st\<lparr>episodic_images := imgs', episodic_labels := labs', count_cls := cnt'\<rparr>))
      else if model_imp_method m = ER_Reservoir then
        reservoir_update_loop (zip bxs bys) (episodic_mem_size a m) st
      else Inr st)"

text \<open>
  What a step does before the loss check: the snapshot, then the branch for the model's
  method with its replay reads, the training call that yields the loss and the memory
  update. \<^verbatim>\<open>S-GEM\<close> has no branch, so \<^verbatim>\<open>loss\<close> stays unbound. The masks the
  branches set (lines 387 to 393, 446 to 474, 518 to 520, 541 to 542, 570 to 624) use the
  labels of the tasks up to the current one, which the snapshot or the task's prologue
  has indexed before. In the source the snapshot precedes the batch bounds of lines 339
  to 372; it belongs to the single-epoch mode, where the batch bounds do not raise, so
  the step has the same result.
\<close>

definition train_branch ::
  "'a env \<Rightarrow> args \<Rightarrow> model \<Rightarrow> int list list \<Rightarrow> nat \<Rightarrow> nat \<Rightarrow> nat \<Rightarrow> 'a list \<Rightarrow> label list
     \<Rightarrow> 'a run_state \<Rightarrow> (loss option \<times> 'a run_state) result" where
  "train_branch e a m task_labels runid task iters bxs bys st =
     rbind (snapshot a task_labels task iters) (\<lambda>_.
     rbind (replay_indices a m task st) (\<lambda>(idxs, g).
     rbind (for_each (\<lambda>idx u. read_memory st idx) idxs ()) (\<lambda>_.
     rbind (memory_update a m task_labels task bxs bys (st\<lparr>np_rng := g\<rparr>)) (\<lambda>st'.
       Inr (if model_imp_method m = S_GEM then None
            else Some (session_loss e runid task iters), st')))))"

text \<open>Lines 339 to 372: where the mini-batch of iteration \<open>iters\<close> starts and how long it is.\<close>

definition batch_bounds :: "args \<Rightarrow> int \<Rightarrow> nat \<Rightarrow> (int \<times> int) result" where
  "batch_bounds a num_train_examples iters =
     (if train_single_epoch a then
        let offset = int iters * batch_size a
        in Inr (offset, if offset + batch_size a \<le> num_train_examples then batch_size a
                        else num_train_examples - offset)
      else if num_train_examples - batch_size a = 0 then Inl ZeroDivisionError
      else Inr ((int iters * batch_size a) mod (num_train_examples - batch_size a),
                batch_size a))"

definition train_step ::
  "'a env \<Rightarrow> args \<Rightarrow> model \<Rightarrow> int list list \<Rightarrow> nat \<Rightarrow> nat \<Rightarrow> 'a list \<Rightarrow> label list \<Rightarrow> nat
     \<Rightarrow> 'a run_state \<Rightarrow> 'a run_state result" where
  "train_step e a m task_labels runid task train_x train_y iters st =
     rbind (batch_bounds a (int (length train_x)) iters) (\<lambda>(offset, residual).
     rbind (train_branch e a m task_labels runid task iters
              (py_slice train_x offset (offset + residual))
              (py_slice train_y offset (offset + residual)) st) (\<lambda>(l, st').
       case l of
         None \<Rightarrow> Inl UnboundLocalError
       | Some v \<Rightarrow> if isnan v then Inl (SystemExit 0) else Inr st'))"

subsection \<open>One task, one run, all runs\<close>

text \<open>Lines 292 to 298.\<close>

definition num_iters_of :: "args \<Rightarrow> int \<Rightarrow> int result" where
  "num_iters_of a num_train_examples =
     (if train_single_epoch a then
        if batch_size a = 0 then Inl ZeroDivisionError
        else Inr ((num_train_examples + batch_size a - 1) div batch_size a)
      else Inr (train_iters a))"

text \<open>
  Lines 265 to 310: the task's training set, the iteration count, the mask of the task
  (set here unless the mode is single-epoch without cross-validation) and the shuffled
  training arrays.
\<close>

definition task_prologue ::
  "'a env \<Rightarrow> args \<Rightarrow> int list list \<Rightarrow> nat \<Rightarrow> 'a run_state
     \<Rightarrow> ('a list \<times> label list \<times> int \<times> 'a run_state) result" where
  "task_prologue e a task_labels task st =
     (case load_task_specific_data e (task_labels ! task) of
        (task_train_images, task_train_labels) \<Rightarrow>
          rbind (num_iters_of a (int (length task_train_images))) (\<lambda>num_iters.
          rbind (if train_single_epoch a \<and> \<not> cross_validate_mode a then Inr ()
                 else set_logit_mask (task_labels ! task)) (\<lambda>_.
            case np_random_shuffle (np_rng st) (np_arange 0 (int (length task_train_images))) of
              (perm, g') \<Rightarrow>
                rbind (np_take task_train_images perm) (\<lambda>train_x.
                rbind (np_take task_train_labels perm) (\<lambda>train_y.
                Inr (train_x, train_y, num_iters, st\<lparr>np_rng := g'\<rparr>))))))"

text \<open>Line 689: the only assignment to the filled counter after its initialisation.\<close>

definition task_epilogue :: "args \<Rightarrow> model \<Rightarrow> 'a run_state \<Rightarrow> 'a run_state" where
  "task_epilogue a m st =
     (if use_episodic_memory m then
        st\<lparr>episodic_filled_counter := episodic_filled_counter st + mem_size a * classes_per_task a\<rparr>
      else st)"

text \<open>
  Lines 699 to 701: the inter-task updates, skipped after the last task. The evaluation
  of lines 703 to 724 follows them.
\<close>

definition inter_task_updates :: "'a env \<Rightarrow> int list list \<Rightarrow> nat \<Rightarrow> 'a run_state \<Rightarrow> 'a run_state" where
  "inter_task_updates e task_labels task st =
     (if int task < int (length task_labels) - 1 then st\<lparr>np_rng := task_updates e (np_rng st)\<rparr>
      else st)"

definition train_task ::
  "'a env \<Rightarrow> args \<Rightarrow> model \<Rightarrow> int list list \<Rightarrow> nat \<Rightarrow> nat \<Rightarrow> 'a run_state \<Rightarrow> 'a run_state result" where
  "train_task e a m task_labels runid task st =
     rbind (task_prologue e a task_labels task st) (\<lambda>(train_x, train_y, num_iters, st1).
     rbind (for_each (train_step e a m task_labels runid task train_x train_y)
              [0..<nat num_iters] st1) (\<lambda>st2.
     rbind (Inr (inter_task_updates e task_labels task (task_epilogue a m st2))) (\<lambda>st3.
     rbind (test_task_sequence task_labels task) (\<lambda>_.
     Inr st3))))"

text \<open>
  Lines 192 to 247: seeding, the task labels, the allocation of the episodic memory and
  of the mask with one row per task (\<^verbatim>\<open>np.zeros\<close> raises ValueError on a negative
  dimension) and the projection matrices. Running out of memory in an allocation depends
  on the platform and is not part of the model.
\<close>

definition run_init ::
  "'a::zero env \<Rightarrow> args \<Rightarrow> model \<Rightarrow> nat \<Rightarrow> rng \<times> rng
     \<Rightarrow> (int list list \<times> 'a run_state) result" where
  "run_init e a m runid gs =
     rbind (np_random_seed (seed_stream e) (random_seed a + int runid) (fst gs)) (\<lambda>g0.
     rbind (gen_task_labels g0 a m) (\<lambda>(task_labels, g1).
       if use_episodic_memory m then
         if episodic_mem_size a m < 0 then Inl ValueError
         else if model_num_tasks m < 0 then Inl ValueError
         else Inr (task_labels,
                   \<lparr>episodic_images = replicate (nat (episodic_mem_size a m)) 0,
                    episodic_labels = replicate (nat (episodic_mem_size a m))
                                        (replicate (nat TOTAL_CLASSES) 0),
                    count_cls = replicate (nat TOTAL_CLASSES) 0,
                    episodic_filled_counter = 0,
                    examples_seen_so_far = 0,
                    np_rng = generate_projection_matrix e g1,
                    py_rng = py_random_seed (py_seed_stream e) (random_seed a + int runid) (snd gs)\<rparr>)
       else if model_num_tasks m < 0 then Inl ValueError
       else Inr (task_labels,
                 \<lparr>episodic_images = [], episodic_labels = [], count_cls = [],
                  episodic_filled_counter = 0, examples_seen_so_far = 0,
                  np_rng = generate_projection_matrix e g1,
                  py_rng = py_random_seed (py_seed_stream e) (random_seed a + int runid) (snd gs)\<rparr>)))"

definition one_run ::
  "'a::zero env \<Rightarrow> args \<Rightarrow> model \<Rightarrow> nat \<Rightarrow> rng \<times> rng
     \<Rightarrow> (int list list \<times> 'a run_state) result" where
  "one_run e a m runid gs =
     rbind (run_init e a m runid gs) (\<lambda>(task_labels, st0).
     rbind (for_each (train_task e a m task_labels runid) [0..<length task_labels] st0) (\<lambda>st.
     Inr (task_labels, st)))"

text \<open>
  The loop over runs (line 188). The state between runs is \<^verbatim>\<open>task_labels_dataset\<close>
  and the two global generators, as the previous run left them; \<open>gs\<close> is their state
  when \<^verbatim>\<open>train_task_sequence\<close> is called.
\<close>

definition run_body ::
  "'a::zero env \<Rightarrow> args \<Rightarrow> model \<Rightarrow> nat \<Rightarrow> int list list list \<times> rng \<times> rng
     \<Rightarrow> (int list list list \<times> rng \<times> rng) result" where
  "run_body e a m runid s =
     (case s of (task_labels_dataset, gs) \<Rightarrow>
        rbind (one_run e a m runid gs) (\<lambda>(task_labels, st).
          Inr (task_labels_dataset @ [task_labels], np_rng st, py_rng st)))"

definition train_task_sequence ::
  "'a::zero env \<Rightarrow> args \<Rightarrow> model \<Rightarrow> rng \<times> rng \<Rightarrow> int list list list result" where
  "train_task_sequence e a m gs =
     rbind (for_each (run_body e a m) [0..<nat (num_runs a)] ([], gs))
       (\<lambda>(task_labels_dataset, gs'). Inr task_labels_dataset)"

subsection \<open>Reference functions for the statements\<close>


text \<open>
  The state of run \<open>runid\<close> after its first \<open>t\<close> tasks, and the state in which step
  \<open>i\<close> of task \<open>t\<close> starts (with the task's labels and shuffled training arrays):
  the prefixes of the loops of \<open>one_run\<close>.
\<close>

definition task_state ::
  "'a::zero env \<Rightarrow> args \<Rightarrow> model \<Rightarrow> nat \<Rightarrow> rng \<times> rng \<Rightarrow> nat
     \<Rightarrow> (int list list \<times> 'a run_state) result" where
  "task_state e a m runid gs t =
     rbind (run_init e a m runid gs) (\<lambda>(task_labels, st0).
     rbind (for_each (train_task e a m task_labels runid) [0..<t] st0) (\<lambda>st.
     Inr (task_labels, st)))"

definition step_state ::
  "'a::zero env \<Rightarrow> args \<Rightarrow> model \<Rightarrow> nat \<Rightarrow> rng \<times> rng \<Rightarrow> nat \<Rightarrow> nat
     \<Rightarrow> (int list list \<times> 'a list \<times> label list \<times> 'a run_state) result" where
  "step_state e a m runid gs t i =
     rbind (task_state e a m runid gs t) (\<lambda>(task_labels, st1).
     rbind (task_prologue e a task_labels t st1) (\<lambda>(train_x, train_y, num_iters, st2).
     rbind (for_each (train_step e a m task_labels runid t train_x train_y) [0..<i] st2) (\<lambda>st3.
     Inr (task_labels, train_x, train_y, st3))))"

text \<open>
  How many exemplars the mini-batch of iteration \<open>i\<close> holds when the training set has
  \<open>n\<close> exemplars, how many one task offers over all its iterations, and how many have
  been offered when step \<open>i\<close> of task \<open>t\<close> starts.
\<close>

definition batch_count :: "args \<Rightarrow> nat \<Rightarrow> nat \<Rightarrow> nat" where
  "batch_count a n i =
     (case batch_bounds a (int n) i of
        Inl _ \<Rightarrow> 0
      | Inr (offset, residual) \<Rightarrow> slice_bound n (offset + residual) - slice_bound n offset)"

definition task_train_size :: "'a env \<Rightarrow> int list list \<Rightarrow> nat \<Rightarrow> nat" where
  "task_train_size e task_labels t = length (fst (load_task_specific_data e (task_labels ! t)))"

definition task_count :: "'a env \<Rightarrow> args \<Rightarrow> int list list \<Rightarrow> nat \<Rightarrow> nat" where
  "task_count e a task_labels t =
     (case num_iters_of a (int (task_train_size e task_labels t)) of
        Inl _ \<Rightarrow> 0
      | Inr k \<Rightarrow> sum_list (map (batch_count a (task_train_size e task_labels t)) [0..<nat k]))"

definition offered_before :: "'a env \<Rightarrow> args \<Rightarrow> int list list \<Rightarrow> nat \<Rightarrow> nat \<Rightarrow> nat" where
  "offered_before e a task_labels t i =
     sum_list (map (task_count e a task_labels) [0..<t]) +
     sum_list (map (batch_count a (task_train_size e task_labels t)) [0..<i])"

text \<open>
  A FIFO write as a call (the exemplar, the label list of its task and the base offset
  the caller passes), the class a call writes, how many calls of a sequence write
  class \<open>c\<close>, and the slot (with the class) that a write of \<open>lab\<close> lands at after a
  sequence of calls.
\<close>

definition fifo_call ::
  "int \<Rightarrow> ('a \<times> label) \<times> int list \<times> int \<Rightarrow> 'a list \<times> label list \<times> 32 word list
     \<Rightarrow> ('a list \<times> label list \<times> 32 word list) result" where
  "fifo_call quota call buf =
     (case call of (ex, batch_task_labels, base) \<Rightarrow> fifo_write ex batch_task_labels quota base buf)"

definition written_class :: "('a \<times> label) \<times> int list \<times> int \<Rightarrow> int option" where
  "written_class call =
     (case call of (ex, batch_task_labels, base) \<Rightarrow>
        map_option snd (class_position (snd ex) batch_task_labels 0))"

definition writes_of :: "int \<Rightarrow> (('a \<times> label) \<times> int list \<times> int) list \<Rightarrow> nat" where
  "writes_of c calls = length (filter (\<lambda>call. written_class call = Some c) calls)"

definition fifo_next_slot ::
  "int \<Rightarrow> (('a \<times> label) \<times> int list \<times> int) list \<Rightarrow> 'a list \<times> label list \<times> 32 word list
     \<Rightarrow> label \<Rightarrow> int list \<Rightarrow> int \<Rightarrow> (int \<times> int) result" where
  "fifo_next_slot quota calls buf lab batch_task_labels base =
     rbind (for_each (fifo_call quota) calls buf)
       (\<lambda>(imgs, labs, cnt). fifo_slot lab batch_task_labels quota base cnt)"

subsection \<open>A small scenario\<close>

text \<open>
  Two tasks of two classes each, one exemplar slot per class. The training set of a
  task holds every class of the task twice; an image is the number of its class and a
  label is a one-hot row over four classes.
\<close>

definition ex_args :: args where
  "ex_args = \<lparr>num_runs = 2, train_iters = 2, batch_size = 2, random_seed = 7, mem_size = 1,
     eps_mem_batch = 2, num_tasks = 50, online_cross_val = True, train_single_epoch = True, cross_validate_mode = False\<rparr>"

text \<open>
  The defaults of the command line (lines 37 to 79), and the same with
  \<^verbatim>\<open>--num-tasks -3 --online-cross-val\<close>.
\<close>

definition default_args :: args where
  "default_args = \<lparr>num_runs = 5, train_iters = 2000, batch_size = 16, random_seed = 1234,
     mem_size = 13, eps_mem_batch = 256, num_tasks = 10, online_cross_val = False,
     train_single_epoch = False, cross_validate_mode = False\<rparr>"


definition ex_model :: "imp_method \<Rightarrow> model" where
  "ex_model meth = \<lparr>model_num_tasks = 2, model_imp_method = meth\<rparr>"

definition ex_env :: "loss \<Rightarrow> int env" where
  "ex_env l =
     \<lparr>seed_stream = (\<lambda>s i. nat s + 3 * i), py_seed_stream = (\<lambda>s i. i),
      load_task_specific_data =
        (\<lambda>ls. (ls @ ls, map (\<lambda>c. (replicate 4 0)[nat c := 1]) (ls @ ls))),
      session_loss = (\<lambda>r t i. l), generate_projection_matrix = (\<lambda>g i. g (i + 2)),
      task_updates = (\<lambda>g i. g (i + 1))\<rparr>"

text \<open>The same collaborators, with a NaN loss throughout the second task.\<close>

definition ex_env_nan :: "int env" where
  "ex_env_nan =
     \<lparr>seed_stream = (\<lambda>s i. nat s + 3 * i), py_seed_stream = (\<lambda>s i. i),
      load_task_specific_data =
        (\<lambda>ls. (ls @ ls, map (\<lambda>c. (replicate 4 0)[nat c := 1]) (ls @ ls))),
      session_loss = (\<lambda>r t i. if t = 1 then NaN else Finite 1),
      generate_projection_matrix = (\<lambda>g i. g (i + 2)), task_updates = (\<lambda>g i. g (i + 1))\<rparr>"

definition ex_gs :: "rng \<times> rng" where
  "ex_gs = (\<lambda>i. 0, \<lambda>i. 0)"

definition ex_rng :: rng where
  "ex_rng = (\<lambda>i. 3 * i + 1)"


text \<open>
  The scenario of section 8 of the specification: six slots, two classes with a quota of
  three; four exemplars of class 0 (images 10 to 13) interleaved with two of class 1
  (images 20 and 21).
\<close>

definition ex_calls :: "((int \<times> label) \<times> int list \<times> int) list" where
  "ex_calls =
     [((10, [1, 0]), [0, 1], 0), ((20, [0, 1]), [0, 1], 0), ((11, [1, 0]), [0, 1], 0),
      ((12, [1, 0]), [0, 1], 0), ((21, [0, 1]), [0, 1], 0), ((13, [1, 0]), [0, 1], 0)]"

definition ex_buffer :: "nat \<Rightarrow> int list \<times> label list \<times> 32 word list" where
  "ex_buffer n = (replicate n 0, replicate n [], replicate (nat TOTAL_CLASSES) 0)"

section \<open>Properties\<close>

subsection \<open>Shuffling permutes\<close>

lemma length_swap_at [simp]: "length (swap_at i j xs) = length xs"
  by (simp add: swap_at_def)

lemma mset_swap_at: "i < length xs \<Longrightarrow> j < length xs \<Longrightarrow> mset (swap_at i j xs) = mset xs"
  unfolding swap_at_def by (rule mset_swap)

lemma random_interval_le: "fst (random_interval g m) \<le> m"
  by (simp add: random_interval_def less_Suc_eq_le [symmetric])

lemma mset_shuffle_from:
  "i < length xs \<Longrightarrow> mset (fst (shuffle_from i g xs)) = mset xs"
proof (induction i arbitrary: g xs)
  case 0
  then show ?case by simp
next
  case (Suc i)
  obtain j g' where r: "random_interval g (Suc i) = (j, g')"
    by (cases "random_interval g (Suc i)")
  have "j \<le> Suc i"
    using random_interval_le [of g "Suc i"] r by simp
  with Suc.prems have j: "j < length xs"
    by simp
  have "mset (fst (shuffle_from i g' (swap_at (Suc i) j xs))) = mset (swap_at (Suc i) j xs)"
    using Suc.prems by (intro Suc.IH) simp
  with r j Suc.prems show ?case
    by (simp add: mset_swap_at)
qed

lemma mset_np_random_shuffle: "mset (fst (np_random_shuffle g xs)) = mset xs"
proof (cases xs)
  case Nil
  then show ?thesis by (simp add: np_random_shuffle_def)
next
  case (Cons x ys)
  then show ?thesis
    unfolding np_random_shuffle_def by (intro mset_shuffle_from) simp
qed

lemma set_np_random_shuffle: "set (fst (np_random_shuffle g xs)) = set xs"
  using mset_np_random_shuffle [of g xs] by (metis set_mset_mset)

lemma length_np_random_shuffle: "length (fst (np_random_shuffle g xs)) = length xs"
  using mset_np_random_shuffle [of g xs] by (metis size_mset)

lemma distinct_np_random_shuffle: "distinct (fst (np_random_shuffle g xs)) = distinct xs"
  using mset_np_random_shuffle [of g xs] by (metis mset_eq_imp_distinct_iff)

lemma set_np_arange: "set (np_arange lo hi) = {lo..<hi}"
  by (auto simp: np_arange_def)

lemma distinct_np_arange: "distinct (np_arange lo hi)"
  by (simp add: np_arange_def)

lemma length_np_arange: "length (np_arange lo hi) = nat (hi - lo)"
  by (simp add: np_arange_def)

subsection \<open>Replay draws\<close>

lemma np_random_choice_props:
  assumes "np_random_choice g a sz = Inr (p, g')"
  shows "distinct p" and "set p \<subseteq> {0..<a}" and "length p = nat sz"
    and "sz = a \<Longrightarrow> set p = {0..<a}"
proof -
  obtain q h where sh: "np_random_shuffle g (np_arange 0 a) = (q, h)"
    by (cases "np_random_shuffle g (np_arange 0 a)")
  from assms sh have ok: "sz \<le> a" "0 \<le> sz" and p: "p = take (nat sz) q"
    by (auto simp: np_random_choice_def split: if_splits)
  have q: "distinct q" "set q = {0..<a}" "length q = nat a"
    using distinct_np_random_shuffle [of g "np_arange 0 a"]
      set_np_random_shuffle [of g "np_arange 0 a"]
      length_np_random_shuffle [of g "np_arange 0 a"] sh
    by (simp_all add: distinct_np_arange set_np_arange length_np_arange)
  show "distinct p" using p q by simp
  show "set p \<subseteq> {0..<a}" using p q set_take_subset [of "nat sz" q] by simp
  show "length p = nat sz" using p q ok by simp
  show "set p = {0..<a}" if "sz = a" using that p q by simp
qed

lemma shuffled_props:
  assumes "np_random_shuffle g xs = (ys, g')"
  shows "distinct ys = distinct xs" and "set ys = set xs" and "length ys = length xs"
  using distinct_np_random_shuffle [of g xs] set_np_random_shuffle [of g xs]
    length_np_random_shuffle [of g xs] assms by simp_all

lemma er_reservoir_indices_props:
  assumes "er_reservoir_indices g seen mem k = Inr (idx, g')"
  shows "distinct idx" and "set idx \<subseteq> {0..<reservoir_mem_filled seen mem}"
    and "reservoir_mem_filled seen mem \<le> k \<Longrightarrow> set idx = {0..<reservoir_mem_filled seen mem}"
    and "k < reservoir_mem_filled seen mem \<Longrightarrow> length idx = nat k"
proof -
  let ?f = "reservoir_mem_filled seen mem"
  from assms obtain sel g1 where
    sel: "(if ?f < k then Inr (np_arange 0 ?f, g) else np_random_choice g ?f k) = Inr (sel, g1)"
    and sh: "np_random_shuffle g1 sel = (idx, g')"
    by (auto simp: er_reservoir_indices_def rbind_def Let_def split: sum.splits prod.splits)
  have s: "distinct sel \<and> set sel \<subseteq> {0..<?f} \<and> (?f \<le> k \<longrightarrow> set sel = {0..<?f})
      \<and> (k < ?f \<longrightarrow> length sel = nat k)"
  proof (cases "?f < k")
    case True
    with sel show ?thesis by (auto simp: distinct_np_arange set_np_arange)
  next
    case False
    with sel have c: "np_random_choice g ?f k = Inr (sel, g1)" by simp
    from np_random_choice_props [OF c] False show ?thesis by auto
  qed
  from shuffled_props [OF sh] s show "distinct idx" by simp
  from shuffled_props [OF sh] s show "set idx \<subseteq> {0..<?f}" by simp
  from shuffled_props [OF sh] s show "set idx = {0..<?f}" if "?f \<le> k" using that by simp
  from shuffled_props [OF sh] s show "length idx = nat k" if "k < ?f" using that by simp
qed

lemma er_ringbuffer_indices_props:
  assumes "er_ringbuffer_indices g cnt mem k = Inr (idx, g')"
  shows "distinct idx" and "set idx \<subseteq> {0..<ringbuffer_mem_filled cnt mem}"
    and "ringbuffer_mem_filled cnt mem \<le> k \<Longrightarrow> set idx = {0..<ringbuffer_mem_filled cnt mem}"
    and "k < ringbuffer_mem_filled cnt mem \<Longrightarrow> length idx = nat k"
proof -
  let ?f = "ringbuffer_mem_filled cnt mem"
  from assms obtain sel g1 where
    sel: "(if ?f \<le> k then Inr (np_arange 0 ?f, g) else np_random_choice g ?f k) = Inr (sel, g1)"
    and sh: "np_random_shuffle g1 sel = (idx, g')"
    by (auto simp: er_ringbuffer_indices_def rbind_def Let_def split: sum.splits prod.splits)
  have s: "distinct sel \<and> set sel \<subseteq> {0..<?f} \<and> (?f \<le> k \<longrightarrow> set sel = {0..<?f})
      \<and> (k < ?f \<longrightarrow> length sel = nat k)"
  proof (cases "?f \<le> k")
    case True
    with sel show ?thesis by (auto simp: distinct_np_arange set_np_arange)
  next
    case False
    with sel have c: "np_random_choice g ?f k = Inr (sel, g1)" by simp
    from np_random_choice_props [OF c] False show ?thesis by auto
  qed
  from shuffled_props [OF sh] s show "distinct idx" by simp
  from shuffled_props [OF sh] s show "set idx \<subseteq> {0..<?f}" by simp
  from shuffled_props [OF sh] s show "set idx = {0..<?f}" if "?f \<le> k" using that by simp
  from shuffled_props [OF sh] s show "length idx = nat k" if "k < ?f" using that by simp
qed

lemma np_random_choice_returns:
  "0 \<le> sz \<Longrightarrow> sz \<le> a \<Longrightarrow> \<exists>p g'. np_random_choice g a sz = Inr (p, g')"
  by (cases "np_random_shuffle g (np_arange 0 a)") (auto simp: np_random_choice_def)

lemma er_reservoir_indices_returns:
  "0 \<le> k \<Longrightarrow> \<exists>idx g'. er_reservoir_indices g seen mem k = Inr (idx, g')"
proof (cases "reservoir_mem_filled seen mem < k")
  case True
  then show ?thesis
    by (cases "np_random_shuffle g (np_arange 0 (reservoir_mem_filled seen mem))")
      (simp add: er_reservoir_indices_def rbind_def)
next
  case False
  assume "0 \<le> k"
  with False obtain p g1 where "np_random_choice g (reservoir_mem_filled seen mem) k = Inr (p, g1)"
    using np_random_choice_returns [of k "reservoir_mem_filled seen mem" g] by auto
  with False show ?thesis
    by (cases "np_random_shuffle g1 p") (simp add: er_reservoir_indices_def rbind_def)
qed

lemma er_ringbuffer_indices_returns:
  "0 \<le> k \<Longrightarrow> \<exists>idx g'. er_ringbuffer_indices g cnt mem k = Inr (idx, g')"
proof (cases "ringbuffer_mem_filled cnt mem \<le> k")
  case True
  then show ?thesis
    by (cases "np_random_shuffle g (np_arange 0 (ringbuffer_mem_filled cnt mem))")
      (simp add: er_ringbuffer_indices_def rbind_def)
next
  case False
  assume "0 \<le> k"
  with False obtain p g1 where "np_random_choice g (ringbuffer_mem_filled cnt mem) k = Inr (p, g1)"
    using np_random_choice_returns [of k "ringbuffer_mem_filled cnt mem" g] by auto
  with False show ?thesis
    by (cases "np_random_shuffle g1 p") (simp add: er_ringbuffer_indices_def rbind_def)
qed

text \<open>
  C1. In the ER-Reservoir and ER-Ringbuffer branches, with \<open>filled\<close> the number of valid
  slots and \<open>k = eps_mem_batch\<close>: a drawn index array has no repeated index and stays
  inside \<open>[0, filled)\<close>; when \<open>filled \<le> k\<close> its indices are exactly the valid slots, and
  when \<open>filled > k\<close> it has exactly \<open>k\<close> indices. For \<open>k \<ge> 0\<close> the draw returns.
\<close>

theorem replay_batch_without_replacement:
  "(er_reservoir_indices g seen mem k = Inr (idx, g') \<longrightarrow>
      distinct idx \<and>
      (reservoir_mem_filled seen mem \<le> k \<longrightarrow> set idx = {0..<reservoir_mem_filled seen mem}) \<and>
      (k < reservoir_mem_filled seen mem \<longrightarrow>
         length idx = nat k \<and> set idx \<subseteq> {0..<reservoir_mem_filled seen mem})) \<and>
   (er_ringbuffer_indices g filled_counter mem k = Inr (idx2, g2) \<longrightarrow>
      distinct idx2 \<and>
      (ringbuffer_mem_filled filled_counter mem \<le> k \<longrightarrow>
         set idx2 = {0..<ringbuffer_mem_filled filled_counter mem}) \<and>
      (k < ringbuffer_mem_filled filled_counter mem \<longrightarrow>
         length idx2 = nat k \<and> set idx2 \<subseteq> {0..<ringbuffer_mem_filled filled_counter mem})) \<and>
   (0 \<le> k \<longrightarrow>
      (\<exists>i h. er_reservoir_indices g seen mem k = Inr (i, h)) \<and>
      (\<exists>i h. er_ringbuffer_indices g filled_counter mem k = Inr (i, h)))"
  using er_reservoir_indices_props [of g seen mem k idx g']
    er_ringbuffer_indices_props [of g filled_counter mem k idx2 g2]
    er_reservoir_indices_returns [of k g seen mem]
    er_ringbuffer_indices_returns [of k g filled_counter mem]
  by blast

theorem replay_batch_without_replacement_witness:
  "map_sum id fst (er_reservoir_indices (\<lambda>i. 3 * i + 1) 5 4 2) = Inr [2, 0] \<and>
   map_sum id fst (er_ringbuffer_indices (\<lambda>i. 3 * i + 1) 2 4 2) = Inr [0, 1] \<and>
   (\<exists>i h. er_reservoir_indices (\<lambda>i. 3 * i + 1) 5 4 2 = Inr (i, h) \<and>
      distinct i \<and> length i = 2 \<and> set i \<subseteq> {0..<4}) \<and>
   (\<exists>i h. er_ringbuffer_indices (\<lambda>i. 3 * i + 1) 2 4 2 = Inr (i, h) \<and>
      distinct i \<and> set i = {0..<2})"
proof -
  let ?g = "\<lambda>i::nat. 3 * i + 1"
  have e1: "map_sum id fst (er_reservoir_indices ?g 5 4 2) = Inr [2, 0]"
    by code_simp
  have e2: "map_sum id fst (er_ringbuffer_indices ?g 2 4 2) = Inr [0, 1]"
    by code_simp
  have f1: "reservoir_mem_filled 5 4 = 4" and f2: "ringbuffer_mem_filled 2 4 = 2"
    by (simp_all add: reservoir_mem_filled_def ringbuffer_mem_filled_def)
  obtain i1 h1 where r1: "er_reservoir_indices ?g 5 4 2 = Inr (i1, h1)"
    using replay_batch_without_replacement [of ?g 5 4 2 "[]" ?g 2 "[]" ?g] by auto
  obtain i2 h2 where r2: "er_ringbuffer_indices ?g 2 4 2 = Inr (i2, h2)"
    using replay_batch_without_replacement [of ?g 5 4 2 "[]" ?g 2 "[]" ?g] by auto
  have p1: "distinct i1 \<and> length i1 = 2 \<and> set i1 \<subseteq> {0..<4}"
    using replay_batch_without_replacement [of ?g 5 4 2 i1 h1 2 i2 h2] r1 f1 by simp
  have p2: "distinct i2 \<and> set i2 = {0..<2}"
    using replay_batch_without_replacement [of ?g 5 4 2 i1 h1 2 i2 h2] r2 f2 by simp
  from e1 e2 r1 r2 p1 p2 show ?thesis by blast
qed

subsection \<open>Task labels\<close>









subsection \<open>Errors raised by the masks and their allocation\<close>

text \<open>
  A label outside \<open>[-100, 100)\<close> ends the task at its first mask, and a model with a
  negative number of tasks ends the run before its first task: with
  \<^verbatim>\<open>--num-tasks 2\<close> the model of \<^verbatim>\<open>main\<close> has \<open>-1\<close> tasks.
\<close>

lemma set_logit_mask_bounds:
  "set_logit_mask labels = Inr () \<longleftrightarrow> (\<forall>c \<in> set labels. - 100 \<le> c \<and> c < 100)"
  by (simp add: set_logit_mask_def TOTAL_CLASSES_def list_all_iff)

lemma task_prologue_label_out_of_range:
  assumes "\<not> train_single_epoch a" and "c \<in> set (task_labels ! task)" and "TOTAL_CLASSES \<le> c"
  shows "task_prologue e a task_labels task st = Inl IndexError"
proof -
  from assms(2,3)
  have "\<not> list_all (\<lambda>c. - TOTAL_CLASSES \<le> c \<and> c < TOTAL_CLASSES) (task_labels ! task)"
    unfolding list_all_iff by (intro notI) (drule bspec [of _ _ c], simp_all)
  then have "set_logit_mask (task_labels ! task) = Inl IndexError"
    by (simp add: set_logit_mask_def)
  with assms(1) show ?thesis
    by (simp add: task_prologue_def num_iters_of_def rbind_def split: prod.splits)
qed

lemma run_init_negative_model_tasks:
  assumes "model_num_tasks m < 0"
  shows "\<exists>err. run_init e a m runid gs = Inl err"
  using assms
  by (cases "np_random_seed (seed_stream e) (random_seed a + int runid) (fst gs)";
      cases "gen_task_labels (seed_stream e (random_seed a + int runid)) a m")
     (auto simp: run_init_def rbind_def np_random_seed_def split: if_splits)

lemma run_init_two_tasks:
  "model_num_tasks (main_model (default_args\<lparr>num_tasks := 2\<rparr>) EWC) = - 1 \<and>
   map_sum id fst
     (run_init (ex_env (Finite 1)) (default_args\<lparr>num_tasks := 2\<rparr>)
        (main_model (default_args\<lparr>num_tasks := 2\<rparr>) EWC) 0 ex_gs) = Inl ValueError"
  by code_simp

subsection \<open>Seeding\<close>

lemma rbind_Inr_iff: "rbind x f = Inr y \<longleftrightarrow> (\<exists>v. x = Inr v \<and> f v = Inr y)"
  by (cases x) (simp_all add: rbind_def)








subsection \<open>What the loops leave unchanged\<close>

lemma np_setitem_length: "np_setitem xs i v = Inr ys \<Longrightarrow> length ys = length xs"
  by (auto simp: np_setitem_def Let_def split: if_splits)

lemma for_each_invariant:
  assumes "for_each f xs s = Inr s'" and "P s"
    and "\<And>x u u'. x \<in> set xs \<Longrightarrow> P u \<Longrightarrow> f x u = Inr u' \<Longrightarrow> P u'"
  shows "P s'"
  using assms
proof (induction xs arbitrary: s)
  case Nil
  then show ?case by simp
next
  case (Cons x xs)
  from Cons.prems(1) obtain u where u: "f x s = Inr u" and rest: "for_each f xs u = Inr s'"
    by (auto simp: rbind_Inr_iff)
  have "P u"
    using Cons.prems(3) [of x s u] Cons.prems(2) u by simp
  with rest Cons.prems(3) show ?case
    by (intro Cons.IH) auto
qed

lemma for_each_sum:
  fixes h :: "'s \<Rightarrow> int"
  assumes "for_each f xs s = Inr s'"
    and "\<And>x u u'. x \<in> set xs \<Longrightarrow> f x u = Inr u' \<Longrightarrow> h u' = h u + w x"
  shows "h s' = h s + sum_list (map w xs)"
  using assms
proof (induction xs arbitrary: s)
  case Nil
  then show ?case by simp
next
  case (Cons x xs)
  from Cons.prems(1) obtain u where u: "f x s = Inr u" and rest: "for_each f xs u = Inr s'"
    by (auto simp: rbind_Inr_iff)
  have "h u = h s + w x"
    using Cons.prems(2) u by simp
  moreover have "h s' = h u + sum_list (map w xs)"
    using rest Cons.prems(2) by (intro Cons.IH) auto
  ultimately show ?case by simp
qed

lemma for_each_append:
  "for_each f (xs @ ys) s = rbind (for_each f xs s) (for_each f ys)"
  by (induction xs arbitrary: s) (simp_all add: rbind_def split: sum.splits)

lemma fifo_write_lengths:
  assumes "fifo_write ex btl q b (imgs, labs, cnt) = Inr (imgs', labs', cnt')"
  shows "length imgs' = length imgs \<and> length labs' = length labs \<and> length cnt' = length cnt"
  using assms
  by (auto simp: fifo_write_def rbind_Inr_iff dest: np_setitem_length)

lemma update_fifo_buffer_lengths:
  assumes "update_fifo_buffer bxs bys imgs labs btl q cnt b = Inr (imgs', labs', cnt')"
  shows "length imgs' = length imgs \<and> length labs' = length labs \<and> length cnt' = length cnt"
proof -
  let ?P = "\<lambda>buf. case buf of (i, l, c) \<Rightarrow>
      length i = length imgs \<and> length l = length labs \<and> length c = length cnt"
  have "?P (imgs', labs', cnt')"
  proof (rule for_each_invariant [where P = ?P])
    show "for_each (\<lambda>ex. fifo_write ex btl q b) (zip bxs bys) (imgs, labs, cnt) = Inr (imgs', labs', cnt')"
      using assms by (simp add: update_fifo_buffer_def)
    show "?P (imgs, labs, cnt)" by simp
    show "?P u'" if "?P u" "fifo_write x btl q b u = Inr u'" for x u u'
      using that fifo_write_lengths [of x btl q b "fst u" "fst (snd u)" "snd (snd u)"
          "fst u'" "fst (snd u')" "snd (snd u')"]
      by (cases u; cases u') simp
  qed
  then show ?thesis by simp
qed

lemma update_reservior_lengths:
  assumes "update_reservior im lab imgs labs cap seen g = Inr (imgs', labs', g')"
  shows "length imgs' = length imgs \<and> length labs' = length labs"
  using assms
  by (auto simp: update_reservior_def rbind_Inr_iff split: if_splits prod.splits
      dest: np_setitem_length)

lemma reservoir_update_loop_frame:
  assumes "reservoir_update_loop batch cap st = Inr st'"
  shows "length (episodic_images st') = length (episodic_images st) \<and>
    length (episodic_labels st') = length (episodic_labels st) \<and>
    count_cls st' = count_cls st \<and>
    episodic_filled_counter st' = episodic_filled_counter st \<and>
    examples_seen_so_far st' = examples_seen_so_far st + int (length batch)"
  using assms
proof (induction batch arbitrary: st)
  case Nil
  then show ?case by simp
next
  case (Cons ex rest)
  obtain er_x er_y where ex: "ex = (er_x, er_y)"
    by (cases ex)
  from Cons.prems ex obtain imgs' labs' g' where
    u: "update_reservior er_x er_y (episodic_images st) (episodic_labels st) cap
          (examples_seen_so_far st) (np_rng st) = Inr (imgs', labs', g')" and
    r: "reservoir_update_loop rest cap
          (st\<lparr>episodic_images := imgs', episodic_labels := labs', np_rng := g',
              examples_seen_so_far := examples_seen_so_far st + 1\<rparr>) = Inr st'"
    by (auto simp: rbind_Inr_iff)
  from Cons.IH [OF r] update_reservior_lengths [OF u] show ?case
    by simp
qed

lemma memory_update_frame:
  assumes "memory_update a m tls t bxs bys st = Inr st'"
  shows "length (episodic_images st') = length (episodic_images st) \<and>
    length (episodic_labels st') = length (episodic_labels st) \<and>
    length (count_cls st') = length (count_cls st) \<and>
    episodic_filled_counter st' = episodic_filled_counter st \<and>
    examples_seen_so_far st' = examples_seen_so_far st +
      (if model_imp_method m = ER_Reservoir then int (length (zip bxs bys)) else 0)"
proof (cases "model_imp_method m \<in> {A_GEM, ER_Ringbuffer, ER_SUBSPACE, ER_SUBSPACE_GP}")
  case True
  with assms obtain imgs' labs' cnt' where
    u: "update_fifo_buffer bxs bys (episodic_images st) (episodic_labels st) (tls ! t)
          (mem_size a) (count_cls st) (episodic_filled_counter st) = Inr (imgs', labs', cnt')" and
    s: "st' = st\<lparr>episodic_images := imgs', episodic_labels := labs', count_cls := cnt'\<rparr>"
    by (auto simp: memory_update_def rbind_Inr_iff)
  from True have "model_imp_method m \<noteq> ER_Reservoir" by auto
  with update_fifo_buffer_lengths [OF u] s show ?thesis by simp
next
  case False
  show ?thesis
  proof (cases "model_imp_method m = ER_Reservoir")
    case True
    with assms have "reservoir_update_loop (zip bxs bys) (episodic_mem_size a m) st = Inr st'"
      by (simp add: memory_update_def)
    from reservoir_update_loop_frame [OF this] True show ?thesis by simp
  next
    case r: False
    with False assms have "st' = st"
      by (simp add: memory_update_def)
    with r show ?thesis by simp
  qed
qed

lemma train_branch_frame:
  assumes "train_branch e a m tls runid t i bxs bys st = Inr (l, st')"
  shows "length (episodic_images st') = length (episodic_images st) \<and>
    length (episodic_labels st') = length (episodic_labels st) \<and>
    length (count_cls st') = length (count_cls st) \<and>
    episodic_filled_counter st' = episodic_filled_counter st \<and>
    examples_seen_so_far st' = examples_seen_so_far st +
      (if model_imp_method m = ER_Reservoir then int (length (zip bxs bys)) else 0)"
proof -
  from assms obtain g where
    "memory_update a m tls t bxs bys (st\<lparr>np_rng := g\<rparr>) = Inr st'"
    by (auto simp: train_branch_def rbind_Inr_iff)
  from memory_update_frame [OF this] show ?thesis by simp
qed


lemma length_py_slice:
  "length (py_slice xs a b) = slice_bound (length xs) b - slice_bound (length xs) a"
proof -
  have "slice_bound (length xs) b \<le> length xs"
    by (auto simp: slice_bound_def)
  then show ?thesis
    by (simp add: py_slice_def Let_def)
qed

lemma np_take_length: "np_take xs idx = Inr ys \<Longrightarrow> length ys = length idx"
  by (induction idx arbitrary: ys) (auto simp: rbind_Inr_iff)

lemma train_step_frame:
  assumes "train_step e a m tls runid t tx ty i st = Inr st'" and "length ty = length tx"
  shows "length (episodic_images st') = length (episodic_images st) \<and>
    length (episodic_labels st') = length (episodic_labels st) \<and>
    length (count_cls st') = length (count_cls st) \<and>
    episodic_filled_counter st' = episodic_filled_counter st \<and>
    examples_seen_so_far st' = examples_seen_so_far st +
      (if model_imp_method m = ER_Reservoir then int (batch_count a (length tx) i) else 0)"
proof -
  from assms(1) obtain offset residual l where
    bb: "batch_bounds a (int (length tx)) i = Inr (offset, residual)" and
    br: "train_branch e a m tls runid t i (py_slice tx offset (offset + residual))
           (py_slice ty offset (offset + residual)) st = Inr (l, st')"
    by (auto simp: train_step_def rbind_Inr_iff split: option.splits if_splits)
  have "length (zip (py_slice tx offset (offset + residual))
      (py_slice ty offset (offset + residual))) = batch_count a (length tx) i"
    using bb assms(2) by (simp add: batch_count_def length_py_slice)
  with train_branch_frame [OF br] show ?thesis by simp
qed

lemma train_steps_frame:
  assumes "for_each (train_step e a m tls runid t tx ty) is st = Inr st'"
    and "length ty = length tx"
  shows "length (episodic_images st') = length (episodic_images st) \<and>
    length (episodic_labels st') = length (episodic_labels st) \<and>
    length (count_cls st') = length (count_cls st) \<and>
    episodic_filled_counter st' = episodic_filled_counter st \<and>
    examples_seen_so_far st' = examples_seen_so_far st +
      (if model_imp_method m = ER_Reservoir
       then int (sum_list (map (batch_count a (length tx)) is)) else 0)"
proof -
  let ?P = "\<lambda>u. length (episodic_images u) = length (episodic_images st) \<and>
    length (episodic_labels u) = length (episodic_labels st) \<and>
    length (count_cls u) = length (count_cls st) \<and>
    episodic_filled_counter u = episodic_filled_counter st"
  have "?P st'"
    by (rule for_each_invariant [OF assms(1), where P = ?P])
      (use train_step_frame [OF _ assms(2)] in auto)
  moreover have "examples_seen_so_far st' = examples_seen_so_far st +
      sum_list (map (\<lambda>i. if model_imp_method m = ER_Reservoir
         then int (batch_count a (length tx) i) else 0) is)"
    by (rule for_each_sum [OF assms(1)]) (use train_step_frame [OF _ assms(2)] in auto)
  moreover have "sum_list (map (\<lambda>i. if model_imp_method m = ER_Reservoir
         then int (batch_count a (length tx) i) else 0) is) =
      (if model_imp_method m = ER_Reservoir
       then int (sum_list (map (batch_count a (length tx)) is)) else 0)"
    by (induction "is") simp_all
  ultimately show ?thesis by simp
qed

lemma task_prologue_frame:
  assumes "task_prologue e a tls t st = Inr (tx, ty, k, st')"
  shows "length tx = task_train_size e tls t" and "length ty = task_train_size e tls t"
    and "num_iters_of a (int (task_train_size e tls t)) = Inr k"
    and "episodic_images st' = episodic_images st" and "episodic_labels st' = episodic_labels st"
    and "count_cls st' = count_cls st"
    and "episodic_filled_counter st' = episodic_filled_counter st"
    and "examples_seen_so_far st' = examples_seen_so_far st"
proof -
  obtain imgs labs where ld: "load_task_specific_data e (tls ! t) = (imgs, labs)"
    by (cases "load_task_specific_data e (tls ! t)")
  obtain perm g' where sh: "np_random_shuffle (np_rng st) (np_arange 0 (int (length imgs))) = (perm, g')"
    by (cases "np_random_shuffle (np_rng st) (np_arange 0 (int (length imgs)))")
  from assms ld sh have k: "num_iters_of a (int (length imgs)) = Inr k"
    and x: "np_take imgs perm = Inr tx" and y: "np_take labs perm = Inr ty"
    and s: "st' = st\<lparr>np_rng := g'\<rparr>"
    by (auto simp: task_prologue_def rbind_Inr_iff)
  have "length perm = length imgs"
    using length_np_random_shuffle [of "np_rng st" "np_arange 0 (int (length imgs))"] sh
    by (simp add: length_np_arange)
  with np_take_length [OF x] np_take_length [OF y] ld
  show "length tx = task_train_size e tls t" and "length ty = task_train_size e tls t"
    by (simp_all add: task_train_size_def)
  from k ld show "num_iters_of a (int (task_train_size e tls t)) = Inr k"
    by (simp add: task_train_size_def)
  from s show "episodic_images st' = episodic_images st"
    and "episodic_labels st' = episodic_labels st"
    and "count_cls st' = count_cls st"
    and "episodic_filled_counter st' = episodic_filled_counter st"
    and "examples_seen_so_far st' = examples_seen_so_far st"
    by simp_all
qed

lemma train_task_frame:
  assumes "train_task e a m tls runid t st = Inr st'"
  shows "length (episodic_images st') = length (episodic_images st) \<and>
    length (episodic_labels st') = length (episodic_labels st) \<and>
    length (count_cls st') = length (count_cls st) \<and>
    episodic_filled_counter st' = episodic_filled_counter st +
      (if use_episodic_memory m then mem_size a * classes_per_task a else 0) \<and>
    examples_seen_so_far st' = examples_seen_so_far st +
      (if model_imp_method m = ER_Reservoir then int (task_count e a tls t) else 0)"
proof -
  from assms obtain tx ty k st1 st2 where
    p: "task_prologue e a tls t st = Inr (tx, ty, k, st1)" and
    l: "for_each (train_step e a m tls runid t tx ty) [0..<nat k] st1 = Inr st2" and
    s: "st' = inter_task_updates e tls t (task_epilogue a m st2)"
    by (auto simp: train_task_def rbind_Inr_iff)
  note pf = task_prologue_frame [OF p]
  have "length ty = length tx"
    using pf(1,2) by simp
  from train_steps_frame [OF l this] pf s show ?thesis
    by (simp add: task_epilogue_def inter_task_updates_def task_count_def)
qed

lemma train_tasks_frame:
  assumes "for_each (train_task e a m tls runid) ts st = Inr st'"
  shows "length (episodic_images st') = length (episodic_images st) \<and>
    length (episodic_labels st') = length (episodic_labels st) \<and>
    length (count_cls st') = length (count_cls st) \<and>
    episodic_filled_counter st' = episodic_filled_counter st +
      (if use_episodic_memory m then int (length ts) * (mem_size a * classes_per_task a) else 0) \<and>
    examples_seen_so_far st' = examples_seen_so_far st +
      (if model_imp_method m = ER_Reservoir
       then int (sum_list (map (task_count e a tls) ts)) else 0)"
proof -
  let ?P = "\<lambda>u. length (episodic_images u) = length (episodic_images st) \<and>
    length (episodic_labels u) = length (episodic_labels st) \<and>
    length (count_cls u) = length (count_cls st)"
  let ?d = "if use_episodic_memory m then mem_size a * classes_per_task a else 0"
  let ?w = "\<lambda>t. if model_imp_method m = ER_Reservoir then int (task_count e a tls t) else 0"
  have "?P st'"
    by (rule for_each_invariant [OF assms, where P = ?P]) (auto dest: train_task_frame)
  moreover have "episodic_filled_counter st' = episodic_filled_counter st +
      sum_list (map (\<lambda>t. ?d) ts)"
    by (rule for_each_sum [OF assms]) (auto dest: train_task_frame)
  moreover have "sum_list (map (\<lambda>t. ?d) ts) = int (length ts) * ?d"
    by (induction ts) (simp_all add: algebra_simps)
  moreover have "examples_seen_so_far st' = examples_seen_so_far st + sum_list (map ?w ts)"
    by (rule for_each_sum [OF assms]) (auto dest: train_task_frame)
  moreover have "sum_list (map ?w ts) =
      (if model_imp_method m = ER_Reservoir
       then int (sum_list (map (task_count e a tls) ts)) else 0)"
    by (induction ts) simp_all
  ultimately show ?thesis by simp
qed

lemma run_init_state:
  assumes "run_init e a m runid gs = Inr (tls, st0)" and "use_episodic_memory m"
  shows "0 \<le> episodic_mem_size a m"
    and "episodic_images st0 = replicate (nat (episodic_mem_size a m)) 0"
    and "episodic_labels st0 =
      replicate (nat (episodic_mem_size a m)) (replicate (nat TOTAL_CLASSES) 0)"
    and "count_cls st0 = replicate (nat TOTAL_CLASSES) 0"
    and "episodic_filled_counter st0 = 0" and "examples_seen_so_far st0 = 0"
    and "num_tasks a \<noteq> 0" and "length tls = nat (model_num_tasks m)"
  using assms
  by (auto simp: run_init_def rbind_Inr_iff gen_task_labels_def Let_def
      split: if_splits prod.splits)

subsection \<open>States a run passes through\<close>

lemma task_state_facts:
  assumes "task_state e a m runid gs t = Inr (tls, st)" and "use_episodic_memory m"
  shows "0 \<le> episodic_mem_size a m"
    and "length (episodic_images st) = nat (episodic_mem_size a m)"
    and "length (episodic_labels st) = nat (episodic_mem_size a m)"
    and "length (count_cls st) = nat TOTAL_CLASSES"
    and "episodic_filled_counter st = int t * (mem_size a * classes_per_task a)"
    and "examples_seen_so_far st =
      (if model_imp_method m = ER_Reservoir
       then int (sum_list (map (task_count e a tls) [0..<t])) else 0)"
    and "length tls = nat (model_num_tasks m)"
proof -
  from assms(1) obtain st0 where
    i: "run_init e a m runid gs = Inr (tls, st0)" and
    l: "for_each (train_task e a m tls runid) [0..<t] st0 = Inr st"
    by (auto simp: task_state_def rbind_Inr_iff)
  note r = run_init_state [OF i assms(2)]
  note f = train_tasks_frame [OF l]
  from r show "0 \<le> episodic_mem_size a m" and "length tls = nat (model_num_tasks m)"
    by simp_all
  from r f assms(2) show "length (episodic_images st) = nat (episodic_mem_size a m)"
    and "length (episodic_labels st) = nat (episodic_mem_size a m)"
    and "length (count_cls st) = nat TOTAL_CLASSES"
    and "episodic_filled_counter st = int t * (mem_size a * classes_per_task a)"
    and "examples_seen_so_far st =
      (if model_imp_method m = ER_Reservoir
       then int (sum_list (map (task_count e a tls) [0..<t])) else 0)"
    by simp_all
qed

lemma step_state_facts:
  assumes "step_state e a m runid gs t i = Inr (tls, tx, ty, st)" and "use_episodic_memory m"
  shows "0 \<le> episodic_mem_size a m"
    and "length (episodic_images st) = nat (episodic_mem_size a m)"
    and "length (episodic_labels st) = nat (episodic_mem_size a m)"
    and "length (count_cls st) = nat TOTAL_CLASSES"
    and "episodic_filled_counter st = int t * (mem_size a * classes_per_task a)"
    and "examples_seen_so_far st =
      (if model_imp_method m = ER_Reservoir then int (offered_before e a tls t i) else 0)"
    and "length tls = nat (model_num_tasks m)"
    and "length tx = task_train_size e tls t" and "length ty = task_train_size e tls t"
proof -
  from assms(1) obtain st1 k st2 where
    t: "task_state e a m runid gs t = Inr (tls, st1)" and
    p: "task_prologue e a tls t st1 = Inr (tx, ty, k, st2)" and
    l: "for_each (train_step e a m tls runid t tx ty) [0..<i] st2 = Inr st"
    by (auto simp: step_state_def rbind_Inr_iff)
  note tf = task_state_facts [OF t assms(2)]
  note pf = task_prologue_frame [OF p]
  have "length ty = length tx"
    using pf(1,2) by simp
  note sf = train_steps_frame [OF l this]
  from tf show "0 \<le> episodic_mem_size a m" and "length tls = nat (model_num_tasks m)"
    by simp_all
  from pf show "length tx = task_train_size e tls t" and "length ty = task_train_size e tls t"
    by simp_all
  from tf pf sf show "length (episodic_images st) = nat (episodic_mem_size a m)"
    and "length (episodic_labels st) = nat (episodic_mem_size a m)"
    and "length (count_cls st) = nat TOTAL_CLASSES"
    and "episodic_filled_counter st = int t * (mem_size a * classes_per_task a)"
    by simp_all
  from tf pf sf show "examples_seen_so_far st =
      (if model_imp_method m = ER_Reservoir then int (offered_before e a tls t i) else 0)"
    by (simp add: offered_before_def)
qed

lemma step_state_Suc:
  "step_state e a m runid gs t (Suc i) = Inr (tls, tx, ty, st') \<longleftrightarrow>
     (\<exists>st. step_state e a m runid gs t i = Inr (tls, tx, ty, st) \<and>
           train_step e a m tls runid t tx ty i st = Inr st')"
  by (auto simp: step_state_def rbind_Inr_iff for_each_append)

lemma one_run_task_state:
  "one_run e a m runid gs = Inr (tls, st) \<longleftrightarrow>
     task_state e a m runid gs (length tls) = Inr (tls, st)"
  by (auto simp: one_run_def task_state_def rbind_Inr_iff)

subsection \<open>The FIFO base offset\<close>

lemma memory_update_fifo:
  assumes "model_imp_method m \<in> {A_GEM, ER_Ringbuffer, ER_SUBSPACE, ER_SUBSPACE_GP}"
  shows "memory_update a m tls t bxs bys st =
    rbind (update_fifo_buffer bxs bys (episodic_images st) (episodic_labels st) (tls ! t)
             (mem_size a) (count_cls st) (episodic_filled_counter st))
      (\<lambda>(imgs', labs', cnt').
         Inr (st\<lparr>episodic_images := imgs', episodic_labels := labs', count_cls := cnt'\<rparr>))"
  using assms by (simp add: memory_update_def)

text \<open>
  C3. In a run that uses episodic memory, when step \<open>i\<close> of task \<open>t\<close> starts the filled
  counter is \<open>t * mem_size * classes_per_task\<close>, and that is the base offset the branch
  hands to \<^verbatim>\<open>update_fifo_buffer\<close>; a training step leaves the counter as it is, and
  completing task \<open>t\<close> takes it from \<open>t * mem_size * classes_per_task\<close> to
  \<open>(t + 1) * mem_size * classes_per_task\<close>.
\<close>

theorem fifo_base_offset_fixed_per_task:
  assumes "use_episodic_memory m"
    and "step_state e a m runid gs t i = Inr (tls, tx, ty, st)"
  shows "episodic_filled_counter st = int t * mem_size a * classes_per_task a \<and>
    (model_imp_method m \<noteq> ER_Reservoir \<longrightarrow>
       memory_update a m tls t bxs bys (st\<lparr>np_rng := g\<rparr>) =
         rbind (update_fifo_buffer bxs bys (episodic_images st) (episodic_labels st) (tls ! t)
                  (mem_size a) (count_cls st) (int t * mem_size a * classes_per_task a))
           (\<lambda>(imgs', labs', cnt').
              Inr (st\<lparr>np_rng := g, episodic_images := imgs', episodic_labels := labs',
                      count_cls := cnt'\<rparr>))) \<and>
    (\<forall>st'. train_step e a m tls runid t tx ty i st = Inr st' \<longrightarrow>
       episodic_filled_counter st' = episodic_filled_counter st) \<and>
    (\<forall>st1 st2. task_state e a m runid gs t = Inr (tls, st1) \<and>
       train_task e a m tls runid t st1 = Inr st2 \<longrightarrow>
       episodic_filled_counter st1 = int t * mem_size a * classes_per_task a \<and>
       episodic_filled_counter st2 = int (Suc t) * mem_size a * classes_per_task a)"
proof -
  note sf = step_state_facts [OF assms(2,1)]
  have c: "episodic_filled_counter st = int t * mem_size a * classes_per_task a"
    using sf(5) by simp
  have len: "length ty = length tx"
    using sf(8,9) by simp
  have fifo: "model_imp_method m \<in> {A_GEM, ER_Ringbuffer, ER_SUBSPACE, ER_SUBSPACE_GP}"
    if "model_imp_method m \<noteq> ER_Reservoir"
    using that assms(1) by (auto simp: use_episodic_memory_def)
  have "memory_update a m tls t bxs bys (st\<lparr>np_rng := g\<rparr>) =
         rbind (update_fifo_buffer bxs bys (episodic_images st) (episodic_labels st) (tls ! t)
                  (mem_size a) (count_cls st) (int t * mem_size a * classes_per_task a))
           (\<lambda>(imgs', labs', cnt').
              Inr (st\<lparr>np_rng := g, episodic_images := imgs', episodic_labels := labs',
                      count_cls := cnt'\<rparr>))"
    if "model_imp_method m \<noteq> ER_Reservoir"
    using memory_update_fifo [OF fifo [OF that], of a tls t bxs bys "st\<lparr>np_rng := g\<rparr>"] c
    by simp
  moreover have "episodic_filled_counter st' = episodic_filled_counter st"
    if "train_step e a m tls runid t tx ty i st = Inr st'" for st'
    using train_step_frame [OF that len] by simp
  moreover have "episodic_filled_counter st1 = int t * mem_size a * classes_per_task a \<and>
       episodic_filled_counter st2 = int (Suc t) * mem_size a * classes_per_task a"
    if "task_state e a m runid gs t = Inr (tls, st1)"
      and "train_task e a m tls runid t st1 = Inr st2" for st1 st2
    using task_state_facts(5) [OF that(1) assms(1)] train_task_frame [OF that(2)] assms(1)
    by (simp add: algebra_simps)
  ultimately show ?thesis
    using c by blast
qed

theorem fifo_base_offset_fixed_per_task_witness:
  "use_episodic_memory (ex_model ER_Ringbuffer) \<and>
   map_sum id (\<lambda>(tls, tx, ty, st). (tls, tx, episodic_filled_counter st))
     (step_state (ex_env (Finite 1)) ex_args (ex_model ER_Ringbuffer) 0 (\<lambda>i. 0, \<lambda>i. 0) 1 1)
     = Inr ([[0, 2], [1, 3]], [3, 1, 3, 1], 2) \<and>
   (\<exists>tls tx ty st.
      step_state (ex_env (Finite 1)) ex_args (ex_model ER_Ringbuffer) 0 (\<lambda>i. 0, \<lambda>i. 0) 1 1
        = Inr (tls, tx, ty, st) \<and>
      episodic_filled_counter st = int 1 * mem_size ex_args * classes_per_task ex_args)"
proof -
  let ?s = "step_state (ex_env (Finite 1)) ex_args (ex_model ER_Ringbuffer) 0 (\<lambda>i. 0, \<lambda>i. 0) 1 1"
  have u: "use_episodic_memory (ex_model ER_Ringbuffer)"
    by (simp add: use_episodic_memory_def ex_model_def)
  have ev: "map_sum id (\<lambda>(tls, tx, ty, st). (tls, tx, episodic_filled_counter st)) ?s
      = Inr ([[0, 2], [1, 3]], [3, 1, 3, 1], 2)"
    by code_simp
  then obtain tls tx ty st where s: "?s = Inr (tls, tx, ty, st)"
    by (cases ?s) auto
  from fifo_base_offset_fixed_per_task [OF u s] s u ev show ?thesis
    by blast
qed

subsection \<open>The size of the episodic memory\<close>

text \<open>
  C5. In a run that uses episodic memory the two buffer arrays are allocated by the run's
  initialisation, filled with zeros, each of length
  \<open>episodic_mem_size = mem_size * total_classes\<close>; they have that length after any
  number of completed tasks and at the start of every training step, and neither a FIFO
  update nor a reservoir update of any batch changes the length of the arrays it is
  given.
\<close>

theorem episodic_memory_fixed_size:
  assumes "use_episodic_memory m"
    and "run_init e a m runid gs = Inr (tls, st0)"
  shows "0 \<le> episodic_mem_size a m \<and>
    episodic_images st0 = replicate (nat (episodic_mem_size a m)) 0 \<and>
    episodic_labels st0 =
      replicate (nat (episodic_mem_size a m)) (replicate (nat TOTAL_CLASSES) 0) \<and>
    (\<forall>t st. task_state e a m runid gs t = Inr (tls, st) \<longrightarrow>
       int (length (episodic_images st)) = episodic_mem_size a m \<and>
       int (length (episodic_labels st)) = episodic_mem_size a m) \<and>
    (\<forall>t i tx ty st. step_state e a m runid gs t i = Inr (tls, tx, ty, st) \<longrightarrow>
       int (length (episodic_images st)) = episodic_mem_size a m \<and>
       int (length (episodic_labels st)) = episodic_mem_size a m) \<and>
    (\<forall>bxs bys imgs labs btl q cnt b imgs' labs' cnt'.
       update_fifo_buffer bxs bys imgs labs btl q cnt b = Inr (imgs', labs', cnt') \<longrightarrow>
       length imgs' = length (imgs :: 'a list) \<and> length labs' = length labs) \<and>
    (\<forall>batch cap st st'.
       reservoir_update_loop batch cap st = Inr st' \<longrightarrow>
       length (episodic_images st') = length (episodic_images (st :: 'a run_state)) \<and>
       length (episodic_labels st') = length (episodic_labels st))"
proof -
  note r = run_init_state [OF assms(2,1)]
  have "int (length (episodic_images st)) = episodic_mem_size a m \<and>
       int (length (episodic_labels st)) = episodic_mem_size a m"
    if "task_state e a m runid gs t = Inr (tls, st)" for t st
    using task_state_facts(1,2,3) [OF that assms(1)] by simp
  moreover have "int (length (episodic_images st)) = episodic_mem_size a m \<and>
       int (length (episodic_labels st)) = episodic_mem_size a m"
    if "step_state e a m runid gs t i = Inr (tls, tx, ty, st)" for t i tx ty st
    using step_state_facts(1,2,3) [OF that assms(1)] by simp
  moreover have "length imgs' = length imgs \<and> length labs' = length labs"
    if "update_fifo_buffer bxs bys imgs labs btl q cnt b = Inr (imgs', labs', cnt')"
    for bxs bys and imgs :: "'a list" and labs btl q cnt b imgs' labs' cnt'
    using update_fifo_buffer_lengths [OF that] by simp
  moreover have "length (episodic_images st') = length (episodic_images st) \<and>
       length (episodic_labels st') = length (episodic_labels st)"
    if "reservoir_update_loop batch cap st = Inr st'" for batch cap and st st' :: "'a run_state"
    using reservoir_update_loop_frame [OF that] by simp
  ultimately show ?thesis
    using r(1,2,3) by blast
qed

theorem episodic_memory_fixed_size_witness:
  "use_episodic_memory (ex_model ER_Ringbuffer) \<and>
   map_sum id (\<lambda>(tls, st). (tls, episodic_images st, length (episodic_labels st)))
     (run_init (ex_env (Finite 1)) ex_args (ex_model ER_Ringbuffer) 0 (\<lambda>i. 0, \<lambda>i. 0))
     = Inr ([[0, 2], [1, 3]], [0, 0, 0, 0], 4) \<and>
   map_sum id (\<lambda>(tls, tx, ty, st). (tls, episodic_images st, length (episodic_labels st)))
     (step_state (ex_env (Finite 1)) ex_args (ex_model ER_Ringbuffer) 0 (\<lambda>i. 0, \<lambda>i. 0) 1 1)
     = Inr ([[0, 2], [1, 3]], [0, 2, 1, 3], 4) \<and>
   episodic_mem_size ex_args (ex_model ER_Ringbuffer) = 4 \<and>
   (\<exists>tls tx ty st.
      step_state (ex_env (Finite 1)) ex_args (ex_model ER_Ringbuffer) 0 (\<lambda>i. 0, \<lambda>i. 0) 1 1
        = Inr (tls, tx, ty, st) \<and>
      int (length (episodic_images st)) = episodic_mem_size ex_args (ex_model ER_Ringbuffer) \<and>
      int (length (episodic_labels st)) = episodic_mem_size ex_args (ex_model ER_Ringbuffer))"
proof -
  let ?e = "ex_env (Finite 1)" and ?m = "ex_model ER_Ringbuffer" and ?gs = "(\<lambda>i::nat. 0::nat, \<lambda>i::nat. 0::nat)"
  have u: "use_episodic_memory ?m"
    by (simp add: use_episodic_memory_def ex_model_def)
  have e0: "map_sum id (\<lambda>(tls, st). (tls, episodic_images st, length (episodic_labels st)))
      (run_init ?e ex_args ?m 0 ?gs) = Inr ([[0, 2], [1, 3]], [0, 0, 0, 0], 4)"
    by code_simp
  have e1: "map_sum id (\<lambda>(tls, tx, ty, st). (tls, episodic_images st, length (episodic_labels st)))
      (step_state ?e ex_args ?m 0 ?gs 1 1) = Inr ([[0, 2], [1, 3]], [0, 2, 1, 3], 4)"
    by code_simp
  have sz: "episodic_mem_size ex_args ?m = 4"
    by code_simp
  from e0 obtain st0 where i: "run_init ?e ex_args ?m 0 ?gs = Inr ([[0, 2], [1, 3]], st0)"
    by (cases "run_init ?e ex_args ?m 0 ?gs") auto
  from e1 obtain tx ty st where s: "step_state ?e ex_args ?m 0 ?gs 1 1 = Inr ([[0, 2], [1, 3]], tx, ty, st)"
    by (cases "step_state ?e ex_args ?m 0 ?gs 1 1") auto
  from episodic_memory_fixed_size [OF u i] s
  have "int (length (episodic_images st)) = episodic_mem_size ex_args ?m \<and>
      int (length (episodic_labels st)) = episodic_mem_size ex_args ?m"
    by blast
  with u e0 e1 sz s show ?thesis by blast
qed

subsection \<open>The reservoir counter\<close>

lemma reservoir_update_loop_append:
  "reservoir_update_loop (b1 @ b2) cap st =
     rbind (reservoir_update_loop b1 cap st) (reservoir_update_loop b2 cap)"
proof (induction b1 arbitrary: st)
  case Nil
  then show ?case by (simp add: rbind_def)
next
  case (Cons ex b1)
  obtain x y where ex: "ex = (x, y)" by (cases ex)
  show ?case
    by (cases "update_reservior x y (episodic_images st) (episodic_labels st) cap
          (examples_seen_so_far st) (np_rng st)")
      (simp_all add: ex rbind_def Cons.IH split: prod.splits)
qed

text \<open>
  C2. In the ER-Reservoir branch the memory update of a step is the reservoir loop over
  the exemplars of the current batch: the exemplar at position \<open>k\<close> of the batch is
  offered once, with the counter at its value before the batch plus \<open>k\<close>, and the
  counter is one more afterwards whether or not the offer wrote a slot. The counter
  starts at \<open>0\<close> with the run, a step adds the number of exemplars of its batch, and when
  step \<open>i\<close> of task \<open>t\<close> starts it equals the number of exemplars offered so far.
\<close>

theorem reservoir_counter_counts_offers:
  assumes "model_imp_method m = ER_Reservoir"
  shows "(\<forall>batch cap st st'. reservoir_update_loop batch cap (st :: 'a::zero run_state) = Inr st' \<longrightarrow>
       examples_seen_so_far st' = examples_seen_so_far st + int (length batch)) \<and>
    (\<forall>b1 x y b2 cap st st1. reservoir_update_loop b1 cap (st :: 'a run_state) = Inr st1 \<longrightarrow>
       reservoir_update_loop (b1 @ (x, y) # b2) cap st =
         rbind (update_reservior x y (episodic_images st1) (episodic_labels st1) cap
                  (examples_seen_so_far st + int (length b1)) (np_rng st1))
           (\<lambda>(imgs', labs', g').
              reservoir_update_loop b2 cap
                (st1\<lparr>episodic_images := imgs', episodic_labels := labs', np_rng := g',
                     examples_seen_so_far := examples_seen_so_far st + int (length b1) + 1\<rparr>))) \<and>
    (\<forall>tls t bxs bys st. memory_update a m tls t bxs bys (st :: 'a run_state) =
       reservoir_update_loop (zip bxs bys) (episodic_mem_size a m) st) \<and>
    (\<forall>tls st0. run_init e a m runid gs = Inr (tls, st0 :: 'a run_state) \<longrightarrow>
       examples_seen_so_far st0 = 0) \<and>
    (\<forall>t i tls tx ty st. step_state e a m runid gs t i = Inr (tls, tx, ty, st :: 'a run_state) \<longrightarrow>
       examples_seen_so_far st = int (offered_before e a tls t i) \<and>
       (\<forall>st'. train_step e a m tls runid t tx ty i st = Inr st' \<longrightarrow>
          examples_seen_so_far st' = examples_seen_so_far st + int (batch_count a (length tx) i)))"
proof -
  have u: "use_episodic_memory m"
    using assms by (simp add: use_episodic_memory_def)
  have "examples_seen_so_far st' = examples_seen_so_far st + int (length batch)"
    if "reservoir_update_loop batch cap st = Inr st'" for batch cap and st st' :: "'a run_state"
    using reservoir_update_loop_frame [OF that] by simp
  moreover have "reservoir_update_loop (b1 @ (x, y) # b2) cap st =
         rbind (update_reservior x y (episodic_images st1) (episodic_labels st1) cap
                  (examples_seen_so_far st + int (length b1)) (np_rng st1))
           (\<lambda>(imgs', labs', g').
              reservoir_update_loop b2 cap
                (st1\<lparr>episodic_images := imgs', episodic_labels := labs', np_rng := g',
                     examples_seen_so_far := examples_seen_so_far st + int (length b1) + 1\<rparr>))"
    if "reservoir_update_loop b1 cap st = Inr st1" for b1 x y b2 cap and st st1 :: "'a run_state"
    using reservoir_update_loop_frame [OF that] that
    by (simp add: reservoir_update_loop_append rbind_def)
  moreover have "memory_update a m tls t bxs bys st =
       reservoir_update_loop (zip bxs bys) (episodic_mem_size a m) st"
    for tls t bxs bys and st :: "'a run_state"
    using assms by (simp add: memory_update_def)
  moreover have "examples_seen_so_far st0 = 0"
    if "run_init e a m runid gs = Inr (tls, st0)" for tls and st0 :: "'a run_state"
    using run_init_state(6) [OF that u] .
  moreover have "examples_seen_so_far st = int (offered_before e a tls t i) \<and>
       (\<forall>st'. train_step e a m tls runid t tx ty i st = Inr st' \<longrightarrow>
          examples_seen_so_far st' = examples_seen_so_far st + int (batch_count a (length tx) i))"
    if s: "step_state e a m runid gs t i = Inr (tls, tx, ty, st)"
    for t i tls tx ty and st :: "'a run_state"
  proof -
    note sf = step_state_facts [OF s u]
    have len: "length ty = length tx"
      using sf(8,9) by simp
    have "examples_seen_so_far st' = examples_seen_so_far st + int (batch_count a (length tx) i)"
      if "train_step e a m tls runid t tx ty i st = Inr st'" for st'
      using train_step_frame [OF that len] assms by simp
    with sf(6) assms show ?thesis by simp
  qed
  ultimately show ?thesis by blast
qed

theorem reservoir_counter_counts_offers_witness:
  "model_imp_method (ex_model ER_Reservoir) = ER_Reservoir \<and>
   map_sum id (\<lambda>(tls, tx, ty, st). (tls, tx, examples_seen_so_far st))
     (step_state (ex_env (Finite 1)) ex_args (ex_model ER_Reservoir) 0 (\<lambda>i. 0, \<lambda>i. 0) 1 1)
     = Inr ([[0, 2], [1, 3]], [1, 3, 3, 1], 6) \<and>
   offered_before (ex_env (Finite 1)) ex_args [[0, 2], [1, 3]] 1 1 = 6 \<and>
   (\<exists>tls tx ty st.
      step_state (ex_env (Finite 1)) ex_args (ex_model ER_Reservoir) 0 (\<lambda>i. 0, \<lambda>i. 0) 1 1
        = Inr (tls, tx, ty, st) \<and>
      examples_seen_so_far st = int (offered_before (ex_env (Finite 1)) ex_args tls 1 1))"
proof -
  let ?e = "ex_env (Finite 1)" and ?m = "ex_model ER_Reservoir" and ?gs = "(\<lambda>i::nat. 0::nat, \<lambda>i::nat. 0::nat)"
  have r: "model_imp_method ?m = ER_Reservoir"
    by (simp add: ex_model_def)
  have e1: "map_sum id (\<lambda>(tls, tx, ty, st). (tls, tx, examples_seen_so_far st))
      (step_state ?e ex_args ?m 0 ?gs 1 1) = Inr ([[0, 2], [1, 3]], [1, 3, 3, 1], 6)"
    by code_simp
  have o: "offered_before ?e ex_args [[0, 2], [1, 3]] 1 1 = 6"
    by code_simp
  from e1 obtain tx ty st where s: "step_state ?e ex_args ?m 0 ?gs 1 1 = Inr ([[0, 2], [1, 3]], tx, ty, st)"
    by (cases "step_state ?e ex_args ?m 0 ?gs 1 1") auto
  from reservoir_counter_counts_offers [OF r, where e = ?e and a = ex_args and runid = 0 and gs = ?gs] s
  have "examples_seen_so_far st = int (offered_before ?e ex_args [[0, 2], [1, 3]] 1 1)"
    by blast
  with r e1 o s show ?thesis by blast
qed

subsection \<open>Replay reads stay inside the memory\<close>

lemma agem_mem_sample_mask_props:
  assumes "agem_mem_sample_mask g c k = Inr (idx, g')"
  shows "set idx \<subseteq> {0..<c}" and "distinct idx"
proof -
  have "set idx \<subseteq> {0..<c} \<and> distinct idx"
  proof (cases "c \<le> k")
    case True
    with assms show ?thesis
      by (auto simp: agem_mem_sample_mask_def set_np_arange distinct_np_arange)
  next
    case False
    with assms have "np_random_choice g c k = Inr (idx, g')"
      by (simp add: agem_mem_sample_mask_def)
    from np_random_choice_props(1,2) [OF this] show ?thesis by simp
  qed
  then show "set idx \<subseteq> {0..<c}" and "distinct idx" by simp_all
qed

lemma np_getitem_mem: "np_getitem xs 0 = Inr v \<Longrightarrow> v \<in> set xs"
  by (auto simp: np_getitem_def Let_def split: if_splits)

lemma task_region_indices_props:
  assumes "task_region_indices g t msize cpt = Inr (idx, g')"
  shows "\<exists>tt. 0 \<le> tt \<and> tt < int t \<and>
    set idx = {tt * msize * cpt..<tt * msize * cpt + msize * cpt}"
proof -
  from assms obtain picked g1 tt where
    c: "np_random_choice g (int t) 1 = Inr (picked, g1)" and
    p: "np_getitem picked 0 = Inr tt" and
    s: "np_random_shuffle g1 (np_arange (tt * msize * cpt) (tt * msize * cpt + msize * cpt))
          = (idx, g')"
    by (auto simp: task_region_indices_def rbind_Inr_iff Let_def)
  from np_getitem_mem [OF p] np_random_choice_props(2) [OF c] have "0 \<le> tt \<and> tt < int t"
    by auto
  moreover from shuffled_props(2) [OF s]
  have "set idx = {tt * msize * cpt..<tt * msize * cpt + msize * cpt}"
    by (simp add: set_np_arange)
  ultimately show ?thesis by blast
qed

lemma np_take_in_range:
  assumes "\<forall>j \<in> set idx. 0 \<le> j \<and> j < int (length xs)"
  shows "\<exists>ys. np_take xs idx = Inr ys"
  using assms
  by (induction idx) (auto simp: rbind_def np_getitem_def)

lemma read_memory_in_range:
  assumes "\<forall>j \<in> set idx. 0 \<le> j \<and> j < n"
    and "int (length (episodic_images st)) = n" and "int (length (episodic_labels st)) = n"
  shows "read_memory st idx = Inr ()"
proof -
  from assms obtain xs ys where "np_take (episodic_images st) idx = Inr xs"
    and "np_take (episodic_labels st) idx = Inr ys"
    using np_take_in_range [of idx "episodic_images st"]
      np_take_in_range [of idx "episodic_labels st"] by auto
  then show ?thesis
    by (simp add: read_memory_def rbind_def)
qed

lemma region_in_memory:
  fixes q :: int
  assumes "0 \<le> q" and "0 \<le> tt" and "tt < int t" and "t \<le> n"
  shows "0 \<le> tt * q" and "tt * q + q \<le> int n * q"
proof -
  show "0 \<le> tt * q" using assms by simp
  have "(tt + 1) * q \<le> int n * q"
    using assms by (intro mult_right_mono) simp_all
  then show "tt * q + q \<le> int n * q"
    by (simp add: algebra_simps)
qed

lemma quota_facts:
  assumes "0 \<le> episodic_mem_size a m" and "length tls = nat (model_num_tasks m)"
    and "t < length tls"
  shows "episodic_mem_size a m = int (length tls) * (mem_size a * classes_per_task a)"
    and "0 \<le> mem_size a * classes_per_task a"
proof -
  from assms(2,3) have "0 < nat (model_num_tasks m)"
    by simp
  with assms(2) have T: "model_num_tasks m = int (length tls)" and pos: "0 < int (length tls)"
    by simp_all
  show eq: "episodic_mem_size a m = int (length tls) * (mem_size a * classes_per_task a)"
    by (simp add: episodic_mem_size_def total_classes_def T)
  from assms(1) eq have "0 \<le> int (length tls) * (mem_size a * classes_per_task a)"
    by simp
  with pos show "0 \<le> mem_size a * classes_per_task a"
    by (simp add: zero_le_mult_iff)
qed

lemma replay_indices_in_bounds:
  assumes um: "use_episodic_memory m"
    and mem0: "0 \<le> episodic_mem_size a m"
    and len: "length tls = nat (model_num_tasks m)"
    and t: "t < length tls"
    and cnt: "episodic_filled_counter st = int t * (mem_size a * classes_per_task a)"
    and ri: "replay_indices a m t st = Inr (idxs, g')"
    and idx: "idx \<in> set idxs" and j: "j \<in> set idx"
  shows "0 \<le> j \<and> j < episodic_mem_size a m"
proof -
  let ?q = "mem_size a * classes_per_task a"
  let ?M = "episodic_mem_size a m"
  note qf = quota_facts [OF mem0 len t]
  have cM: "episodic_filled_counter st \<le> ?M"
  proof -
    have "int t * ?q \<le> int (length tls) * ?q"
      using t qf(2) by (intro mult_right_mono) simp_all
    with cnt qf(1) show ?thesis by simp
  qed
  have region: "0 \<le> j \<and> j < ?M"
    if "task_region_indices g t (mem_size a) (classes_per_task a) = Inr (idx, h)" for g h
  proof -
    from task_region_indices_props [OF that] obtain tt where
      tt: "0 \<le> tt" "tt < int t" and
      s: "set idx = {tt * mem_size a * classes_per_task a..<
            tt * mem_size a * classes_per_task a + mem_size a * classes_per_task a}"
      by blast
    from t have "t \<le> length tls" by simp
    from region_in_memory [OF qf(2) tt this] s j qf(1) show ?thesis
      by (simp add: mult.assoc)
  qed
  have ring: "0 \<le> j \<and> j < ?M"
    if "er_ringbuffer_indices g (episodic_filled_counter st) ?M (eps_mem_batch a) = Inr (idx, h)"
    for g h
    using er_ringbuffer_indices_props(2) [OF that] j
    by (auto simp: ringbuffer_mem_filled_def split: if_splits)
  from um consider "model_imp_method m = A_GEM" | "model_imp_method m = ER_Reservoir"
    | "model_imp_method m = ER_Ringbuffer" | "model_imp_method m = ER_SUBSPACE"
    | "model_imp_method m = ER_SUBSPACE_GP"
    by (auto simp: use_episodic_memory_def)
  then show ?thesis
  proof cases
    case 1
    with ri idx obtain h where "agem_mem_sample_mask (np_rng st) (episodic_filled_counter st)
        (eps_mem_batch a) = Inr (idx, h)"
      by (auto simp: replay_indices_def Let_def rbind_Inr_iff split: if_splits)
    from agem_mem_sample_mask_props(1) [OF this] j cM show ?thesis by auto
  next
    case 2
    with ri idx obtain h where "er_reservoir_indices (np_rng st) (examples_seen_so_far st) ?M
        (eps_mem_batch a) = Inr (idx, h)"
      by (auto simp: replay_indices_def Let_def rbind_Inr_iff)
    from er_reservoir_indices_props(2) [OF this] j show ?thesis
      by (auto simp: reservoir_mem_filled_def split: if_splits)
  next
    case 3
    with ri idx obtain h where "er_ringbuffer_indices (np_rng st) (episodic_filled_counter st) ?M
        (eps_mem_batch a) = Inr (idx, h)"
      by (auto simp: replay_indices_def Let_def rbind_Inr_iff)
    then show ?thesis by (rule ring)
  next
    case 4
    with ri idx obtain h where "task_region_indices (np_rng st) t (mem_size a)
        (classes_per_task a) = Inr (idx, h)"
      by (auto simp: replay_indices_def Let_def rbind_Inr_iff split: if_splits)
    then show ?thesis by (rule region)
  next
    case 5
    with ri idx have
      "(\<exists>h1. task_region_indices (np_rng st) t (mem_size a) (classes_per_task a) = Inr (idx, h1)) \<or>
       (\<exists>g1 h2. er_ringbuffer_indices g1 (episodic_filled_counter st) ?M (eps_mem_batch a)
          = Inr (idx, h2))"
      by (auto simp: replay_indices_def Let_def rbind_Inr_iff split: if_splits)
    then show ?thesis using region ring by blast
  qed
qed

text \<open>
  C9. In a run that uses episodic memory, at the start of every step of every task
  \<open>t\<close> of the run: the filled counter is at most \<open>episodic_mem_size\<close> (also after the
  last task), the reservoir bound is the minimum of the seen counter and
  \<open>episodic_mem_size\<close>, and every index the branch of the step reads the memory with lies
  in \<open>[0, episodic_mem_size)\<close>, so that the reads raise no IndexError.
\<close>

theorem replay_reads_in_bounds:
  assumes "use_episodic_memory m"
    and "step_state e a m runid gs t i = Inr (tls, tx, ty, st)"
    and "t < length tls"
  shows "episodic_filled_counter st \<le> episodic_mem_size a m \<and>
    reservoir_mem_filled (examples_seen_so_far st) (episodic_mem_size a m) =
      min (examples_seen_so_far st) (episodic_mem_size a m) \<and>
    (\<forall>idxs g'. replay_indices a m t st = Inr (idxs, g') \<longrightarrow>
       (\<forall>idx \<in> set idxs.
          (\<forall>j \<in> set idx. 0 \<le> j \<and> j < episodic_mem_size a m) \<and>
          read_memory st idx = Inr ())) \<and>
    (\<forall>t' st'. task_state e a m runid gs t' = Inr (tls, st') \<and> t' \<le> length tls \<longrightarrow>
       episodic_filled_counter st' \<le> episodic_mem_size a m)"
proof -
  note sf = step_state_facts [OF assms(2,1)]
  note qf = quota_facts [OF sf(1) sf(7) assms(3)]
  have bound: "int u * (mem_size a * classes_per_task a) \<le> episodic_mem_size a m"
    if "u \<le> length tls" for u
  proof -
    have "int u * (mem_size a * classes_per_task a)
        \<le> int (length tls) * (mem_size a * classes_per_task a)"
      using that qf(2) by (intro mult_right_mono) simp_all
    with qf(1) show ?thesis by simp
  qed
  have c: "episodic_filled_counter st \<le> episodic_mem_size a m"
    using bound [of t] assms(3) sf(5) by simp
  have reads: "(\<forall>j \<in> set idx. 0 \<le> j \<and> j < episodic_mem_size a m) \<and> read_memory st idx = Inr ()"
    if ri: "replay_indices a m t st = Inr (idxs, g')" and idx: "idx \<in> set idxs" for idxs g' idx
  proof -
    have b: "\<forall>j \<in> set idx. 0 \<le> j \<and> j < episodic_mem_size a m"
      using replay_indices_in_bounds [OF assms(1) sf(1) sf(7) assms(3) sf(5) ri idx] by blast
    have "int (length (episodic_images st)) = episodic_mem_size a m"
      and "int (length (episodic_labels st)) = episodic_mem_size a m"
      using sf(1,2,3) by simp_all
    from read_memory_in_range [OF b this] b show ?thesis by simp
  qed
  have "episodic_filled_counter st' \<le> episodic_mem_size a m"
    if "task_state e a m runid gs t' = Inr (tls, st')" and "t' \<le> length tls" for t' st'
    using task_state_facts(5) [OF that(1) assms(1)] bound [OF that(2)] by simp
  moreover have "reservoir_mem_filled (examples_seen_so_far st) (episodic_mem_size a m) =
      min (examples_seen_so_far st) (episodic_mem_size a m)"
    by (simp add: reservoir_mem_filled_def min_def)
  ultimately show ?thesis using c reads by blast
qed

theorem replay_reads_in_bounds_witness:
  "use_episodic_memory (ex_model ER_SUBSPACE_GP) \<and>
   map_sum id (\<lambda>(tls, tx, ty, st). (tls, episodic_filled_counter st,
       map_sum id fst (replay_indices ex_args (ex_model ER_SUBSPACE_GP) 1 st)))
     (step_state (ex_env (Finite 1)) ex_args (ex_model ER_SUBSPACE_GP) 0 (\<lambda>i. 0, \<lambda>i. 0) 1 1)
     = Inr ([[0, 2], [1, 3]], 2, Inr [[0, 1], [1, 0]]) \<and>
   episodic_mem_size ex_args (ex_model ER_SUBSPACE_GP) = 4 \<and>
   (\<exists>tls tx ty st idxs g'.
      step_state (ex_env (Finite 1)) ex_args (ex_model ER_SUBSPACE_GP) 0 (\<lambda>i. 0, \<lambda>i. 0) 1 1
        = Inr (tls, tx, ty, st) \<and> 1 < length tls \<and>
      replay_indices ex_args (ex_model ER_SUBSPACE_GP) 1 st = Inr (idxs, g') \<and>
      length idxs = 2 \<and>
      (\<forall>idx \<in> set idxs.
         (\<forall>j \<in> set idx. 0 \<le> j \<and> j < episodic_mem_size ex_args (ex_model ER_SUBSPACE_GP)) \<and>
         read_memory st idx = Inr ()))"
proof -
  let ?e = "ex_env (Finite 1)" and ?m = "ex_model ER_SUBSPACE_GP"
    and ?gs = "(\<lambda>i::nat. 0::nat, \<lambda>i::nat. 0::nat)"
  have u: "use_episodic_memory ?m"
    by (simp add: use_episodic_memory_def ex_model_def)
  have ev: "map_sum id (\<lambda>(tls, tx, ty, st). (tls, episodic_filled_counter st,
       map_sum id fst (replay_indices ex_args ?m 1 st))) (step_state ?e ex_args ?m 0 ?gs 1 1)
     = Inr ([[0, 2], [1, 3]], 2, Inr [[0, 1], [1, 0]])"
    by code_simp
  have sz: "episodic_mem_size ex_args ?m = 4"
    by code_simp
  from ev obtain tx ty st where
    s: "step_state ?e ex_args ?m 0 ?gs 1 1 = Inr ([[0, 2], [1, 3]], tx, ty, st)" and
    r: "map_sum id fst (replay_indices ex_args ?m 1 st) = Inr [[0, 1], [1, 0]]"
    by (cases "step_state ?e ex_args ?m 0 ?gs 1 1") auto
  from r obtain g' where ri: "replay_indices ex_args ?m 1 st = Inr ([[0, 1], [1, 0]], g')"
    by (cases "replay_indices ex_args ?m 1 st") auto
  have t: "1 < length [[0, 2], [1, 3 :: int]]"
    by simp
  from replay_reads_in_bounds [OF u s t] ri
  have "\<forall>idx \<in> set [[0, 1], [1, 0]].
      (\<forall>j \<in> set idx. 0 \<le> j \<and> j < episodic_mem_size ex_args ?m) \<and> read_memory st idx = Inr ()"
    by blast
  with u ev sz s ri t show ?thesis
    by (intro conjI exI [of _ "[[0, 2], [1, 3]]"] exI [of _ tx] exI [of _ ty] exI [of _ st]
        exI [of _ "[[0, 1], [1, 0]]"] exI [of _ g']) simp_all
qed

subsection \<open>The loss check\<close>

lemma for_each_fails:
  assumes "for_each f xs s = Inr s1" and "f x s1 = Inl err"
  shows "for_each f (xs @ x # ys) s = Inl err"
  using assms by (simp add: for_each_append rbind_def)

lemma upt_split_at: "i < n \<Longrightarrow> [0..<n] = [0..<i] @ i # [Suc i..<n]"
  by (metis upt_add_eq_append upt_conv_Cons le0 add_0 less_imp_add_positive add.commute le_add1 upt_rec)

text \<open>In the single-epoch mode the batch bounds do not raise.\<close>

lemma batch_bounds_single_epoch:
  "train_single_epoch a \<Longrightarrow> \<exists>b. batch_bounds a n i = Inr b"
  by (simp add: batch_bounds_def Let_def)

lemma train_step_Inr_not_nan:
  assumes "train_step e a m tls runid t tx ty i st = Inr st'"
  shows "\<not> isnan (session_loss e runid t i)"
  using assms
  by (auto simp: train_step_def train_branch_def rbind_Inr_iff
      split: option.splits if_splits)

lemma train_step_nan_exit:
  assumes "isnan (session_loss e runid t i)"
    and "batch_bounds a (int (length tx)) i = Inr (offset, residual)"
    and "train_branch e a m tls runid t i (py_slice tx offset (offset + residual))
           (py_slice ty offset (offset + residual)) st = Inr (Some v, st')"
  shows "train_step e a m tls runid t tx ty i st = Inl (SystemExit 0)"
proof -
  from assms(3) have "v = session_loss e runid t i"
    by (auto simp: train_branch_def rbind_Inr_iff split: if_splits)
  with assms show ?thesis
    by (simp add: train_step_def rbind_def)
qed

lemma step_failure_ends_everything:
  assumes runs: "for_each (run_body e a m) [0..<runid] ([], gs0) = Inr (tld, gs)"
    and r: "runid < nat (num_runs a)"
    and s: "step_state e a m runid gs t i = Inr (tls, tx, ty, st)"
    and t: "t < length tls"
    and k: "num_iters_of a (int (task_train_size e tls t)) = Inr k"
    and i: "i < nat k"
    and f: "train_step e a m tls runid t tx ty i st = Inl err"
  shows "train_task_sequence e a m gs0 = Inl err"
proof -
  from s obtain st0 st1 k' st2 where
    ini: "run_init e a m runid gs = Inr (tls, st0)" and
    tasks: "for_each (train_task e a m tls runid) [0..<t] st0 = Inr st1" and
    pro: "task_prologue e a tls t st1 = Inr (tx, ty, k', st2)" and
    steps: "for_each (train_step e a m tls runid t tx ty) [0..<i] st2 = Inr st"
    by (auto simp: step_state_def task_state_def rbind_Inr_iff)
  from task_prologue_frame(3) [OF pro] k have k': "k' = k"
    by simp
  have "for_each (train_step e a m tls runid t tx ty) [0..<nat k] st2 = Inl err"
    using for_each_fails [OF steps f] upt_split_at [OF i] by simp
  with pro k' have "train_task e a m tls runid t st1 = Inl err"
    by (simp add: train_task_def rbind_def)
  from for_each_fails [OF tasks this] upt_split_at [OF t]
  have "for_each (train_task e a m tls runid) [0..<length tls] st0 = Inl err"
    by simp
  with ini have "one_run e a m runid gs = Inl err"
    by (simp add: one_run_def rbind_def)
  then have "run_body e a m runid (tld, gs) = Inl err"
    by (simp add: run_body_def rbind_def)
  from for_each_fails [OF runs this] upt_split_at [OF r]
  have "for_each (run_body e a m) [0..<nat (num_runs a)] ([], gs0) = Inl err"
    by simp
  then show ?thesis
    by (simp add: train_task_sequence_def rbind_def)
qed

text \<open>
  C7, as amended. If the loss of step \<open>i\<close> of task \<open>t\<close> of run \<open>runid\<close> is NaN, the step
  does not complete and \<^verbatim>\<open>train_task_sequence\<close> ends with the error of that step:
  no later step, task or run is executed and nothing is retried. When the branch of
  the step itself ran through, the error is \<^verbatim>\<open>sys.exit(0)\<close>.
\<close>

theorem nan_loss_exits_run:
  assumes "for_each (run_body e a m) [0..<runid] ([], gs0) = Inr (tld, gs)"
    and "runid < nat (num_runs a)"
    and "step_state e a m runid gs t i = Inr (tls, tx, ty, st)"
    and "t < length tls"
    and "num_iters_of a (int (task_train_size e tls t)) = Inr k"
    and "i < nat k"
    and "isnan (session_loss e runid t i)"
  shows "(\<exists>err. train_step e a m tls runid t tx ty i st = Inl err \<and>
            train_task_sequence e a m gs0 = Inl err) \<and>
    (\<forall>offset residual v st'.
       batch_bounds a (int (length tx)) i = Inr (offset, residual) \<and>
       train_branch e a m tls runid t i (py_slice tx offset (offset + residual))
         (py_slice ty offset (offset + residual)) st = Inr (Some v, st') \<longrightarrow>
       train_step e a m tls runid t tx ty i st = Inl (SystemExit 0) \<and>
       train_task_sequence e a m gs0 = Inl (SystemExit 0))"
proof -
  obtain err where f: "train_step e a m tls runid t tx ty i st = Inl err"
    using train_step_Inr_not_nan [of e a m tls runid t tx ty i st] assms(7)
    by (cases "train_step e a m tls runid t tx ty i st") auto
  have all: "train_task_sequence e a m gs0 = Inl err'"
    if "train_step e a m tls runid t tx ty i st = Inl err'" for err'
    using step_failure_ends_everything [OF assms(1-6) that] .
  have "train_step e a m tls runid t tx ty i st = Inl (SystemExit 0) \<and>
       train_task_sequence e a m gs0 = Inl (SystemExit 0)"
    if "batch_bounds a (int (length tx)) i = Inr (offset, residual)"
      and "train_branch e a m tls runid t i (py_slice tx offset (offset + residual))
         (py_slice ty offset (offset + residual)) st = Inr (Some v, st')"
    for offset residual v st'
    using train_step_nan_exit [OF assms(7) that] all by simp
  with f all [OF f] show ?thesis by blast
qed

theorem nan_loss_exits_run_witness:
  "for_each (run_body ex_env_nan ex_args (ex_model ER_Ringbuffer)) [0..<0] ([], ex_gs)
     = Inr ([], ex_gs) \<and>
   0 < nat (num_runs ex_args) \<and>
   num_iters_of ex_args (int (task_train_size ex_env_nan [[0, 2], [1, 3]] 1)) = Inr 2 \<and>
   isnan (session_loss ex_env_nan 0 1 0) \<and>
   batch_bounds ex_args (int (length [3, 1, 3, 1 :: int])) 0 = Inr (0, 2) \<and>
   map_sum id (\<lambda>(tls, tx, ty, st). (tls, tx,
       map_sum id fst (train_branch ex_env_nan ex_args (ex_model ER_Ringbuffer) tls 0 1 0
         (py_slice tx 0 (0 + 2)) (py_slice ty 0 (0 + 2)) st)))
     (step_state ex_env_nan ex_args (ex_model ER_Ringbuffer) 0 ex_gs 1 0)
     = Inr ([[0, 2], [1, 3]], [3, 1, 3, 1], Inr (Some NaN)) \<and>
   train_task_sequence ex_env_nan ex_args (ex_model ER_Ringbuffer) ex_gs = Inl (SystemExit 0) \<and>
   (\<exists>tls tx ty st.
      step_state ex_env_nan ex_args (ex_model ER_Ringbuffer) 0 ex_gs 1 0 = Inr (tls, tx, ty, st) \<and>
      1 < length tls \<and>
      train_step ex_env_nan ex_args (ex_model ER_Ringbuffer) tls 0 1 tx ty 0 st
        = Inl (SystemExit 0))"
proof -
  let ?e = ex_env_nan and ?m = "ex_model ER_Ringbuffer"
  have h1: "for_each (run_body ?e ex_args ?m) [0..<0] ([], ex_gs) = Inr ([], ex_gs)"
    by simp
  have h2: "0 < nat (num_runs ex_args)"
    by (simp add: ex_args_def)
  have h5: "num_iters_of ex_args (int (task_train_size ?e [[0, 2], [1, 3]] 1)) = Inr 2"
    by code_simp
  have h6: "(0::nat) < nat 2"
    by simp
  have h7: "isnan (session_loss ?e 0 1 0)"
    by (simp add: ex_env_nan_def)
  have bb: "batch_bounds ex_args (int (length [3, 1, 3, 1 :: int])) 0 = Inr (0, 2)"
    by code_simp
  have ev: "map_sum id (\<lambda>(tls, tx, ty, st). (tls, tx,
       map_sum id fst (train_branch ?e ex_args ?m tls 0 1 0
         (py_slice tx 0 (0 + 2)) (py_slice ty 0 (0 + 2)) st)))
     (step_state ?e ex_args ?m 0 ex_gs 1 0)
     = Inr ([[0, 2], [1, 3]], [3, 1, 3, 1], Inr (Some NaN))"
    by code_simp
  have fin: "train_task_sequence ?e ex_args ?m ex_gs = Inl (SystemExit 0)"
    by code_simp
  from ev obtain ty st where
    h3: "step_state ?e ex_args ?m 0 ex_gs 1 0 = Inr ([[0, 2], [1, 3]], [3, 1, 3, 1], ty, st)" and
    b: "map_sum id fst (train_branch ?e ex_args ?m [[0, 2], [1, 3]] 0 1 0
         (py_slice [3, 1, 3, 1] 0 (0 + 2)) (py_slice ty 0 (0 + 2)) st) = Inr (Some NaN)"
    by (cases "step_state ?e ex_args ?m 0 ex_gs 1 0") auto
  from b obtain st' where
    br: "train_branch ?e ex_args ?m [[0, 2], [1, 3]] 0 1 0
         (py_slice [3, 1, 3, 1] 0 (0 + 2)) (py_slice ty 0 (0 + 2)) st = Inr (Some NaN, st')"
    by (cases "train_branch ?e ex_args ?m [[0, 2], [1, 3]] 0 1 0
         (py_slice [3, 1, 3, 1] 0 (0 + 2)) (py_slice ty 0 (0 + 2)) st") auto
  have h4: "1 < length [[0, 2], [1, 3 :: int]]"
    by simp
  from nan_loss_exits_run [OF h1 h2 h3 h4 h5 h6 h7] bb br
  have "train_step ?e ex_args ?m [[0, 2], [1, 3]] 0 1 [3, 1, 3, 1] ty 0 st = Inl (SystemExit 0)"
    by blast
  with h1 h2 h5 h7 bb ev fin h3 h4 show ?thesis
    by (intro conjI exI [of _ "[[0, 2], [1, 3]]"] exI [of _ "[3, 1, 3, 1]"] exI [of _ ty]
        exI [of _ st]) simp_all
qed

text \<open>
  The check is \<^verbatim>\<open>math.isnan\<close>: with an infinite loss at every step the two runs of
  the scenario complete.
\<close>

theorem infinite_loss_does_not_exit:
  "\<not> isfinite (session_loss (ex_env PosInf) 0 0 0) \<and>
   train_task_sequence (ex_env PosInf) ex_args (ex_model ER_Ringbuffer) ex_gs
     = Inr [[[0, 2], [1, 3]], [[1, 3], [2, 0]]]"
proof -
  have "session_loss (ex_env PosInf) 0 0 0 = PosInf"
    by (simp add: ex_env_def)
  moreover have "train_task_sequence (ex_env PosInf) ex_args (ex_model ER_Ringbuffer) ex_gs
     = Inr [[[0, 2], [1, 3]], [[1, 3], [2, 0]]]"
    by code_simp
  ultimately show ?thesis by simp
qed

text \<open>The same holds with a loss of minus infinity.\<close>

lemma negative_infinite_loss_completes:
  "\<not> isfinite (session_loss (ex_env NegInf) 0 0 0) \<and>
   train_task_sequence (ex_env NegInf) ex_args (ex_model ER_Ringbuffer) ex_gs
     = Inr [[[0, 2], [1, 3]], [[1, 3], [2, 0]]]"
proof -
  have "session_loss (ex_env NegInf) 0 0 0 = NegInf"
    by (simp add: ex_env_def)
  moreover have "train_task_sequence (ex_env NegInf) ex_args (ex_model ER_Ringbuffer) ex_gs
     = Inr [[[0, 2], [1, 3]], [[1, 3], [2, 0]]]"
    by code_simp
  ultimately show ?thesis by simp
qed

subsection \<open>Which selections are shuffled\<close>

text \<open>
  C4, as amended. In the ER-Reservoir, ER-Ringbuffer, ER-SUBSPACE and ER-SUBSPACE-GP
  branches the index array the memory is read with is \<^verbatim>\<open>np.random.shuffle\<close> applied
  to the selection (a permutation of it), in the full-buffer case and in the subsampled
  case alike. The A-GEM branch uses its selection as it is: \<^verbatim>\<open>np.arange\<close> of the
  filled counter, in ascending order and without touching the generator, when the
  counter is at most \<open>k\<close>, and the result of \<^verbatim>\<open>np.random.choice\<close> otherwise.
\<close>

theorem er_branches_shuffle_selection:
  "(er_reservoir_indices g seen mem k = Inr (idx, g') \<longrightarrow>
      (\<exists>sel g1.
         (if reservoir_mem_filled seen mem < k
          then Inr (np_arange 0 (reservoir_mem_filled seen mem), g)
          else np_random_choice g (reservoir_mem_filled seen mem) k) = Inr (sel, g1) \<and>
         np_random_shuffle g1 sel = (idx, g') \<and> mset idx = mset sel)) \<and>
   (er_ringbuffer_indices g filled_counter mem k = Inr (idx, g') \<longrightarrow>
      (\<exists>sel g1.
         (if ringbuffer_mem_filled filled_counter mem \<le> k
          then Inr (np_arange 0 (ringbuffer_mem_filled filled_counter mem), g)
          else np_random_choice g (ringbuffer_mem_filled filled_counter mem) k) = Inr (sel, g1) \<and>
         np_random_shuffle g1 sel = (idx, g') \<and> mset idx = mset sel)) \<and>
   (task_region_indices g t msize cpt = Inr (idx, g') \<longrightarrow>
      (\<exists>tt g1.
         0 \<le> tt \<and> tt < int t \<and>
         np_random_shuffle g1 (np_arange (tt * msize * cpt) (tt * msize * cpt + msize * cpt))
           = (idx, g') \<and>
         mset idx = mset (np_arange (tt * msize * cpt) (tt * msize * cpt + msize * cpt)))) \<and>
   (agem_mem_sample_mask g filled_counter k = Inr (idx, g') \<longrightarrow>
      (filled_counter \<le> k \<longrightarrow> idx = np_arange 0 filled_counter \<and> g' = g) \<and>
      (k < filled_counter \<longrightarrow> np_random_choice g filled_counter k = Inr (idx, g'))) \<and>
   (model_imp_method m = ER_Reservoir \<longrightarrow>
      replay_indices a m t st =
        rbind (er_reservoir_indices (np_rng st) (examples_seen_so_far st) (episodic_mem_size a m)
                 (eps_mem_batch a)) (\<lambda>(i, h). Inr ([i], h))) \<and>
   (model_imp_method m = ER_Ringbuffer \<longrightarrow>
      replay_indices a m t st =
        rbind (er_ringbuffer_indices (np_rng st) (episodic_filled_counter st)
                 (episodic_mem_size a m) (eps_mem_batch a)) (\<lambda>(i, h). Inr ([i], h))) \<and>
   (model_imp_method m = ER_SUBSPACE \<and> 0 < t \<longrightarrow>
      replay_indices a m t st =
        rbind (task_region_indices (np_rng st) t (mem_size a) (classes_per_task a))
          (\<lambda>(i, h). Inr ([i], h))) \<and>
   (model_imp_method m = ER_SUBSPACE_GP \<and> 0 < t \<longrightarrow>
      replay_indices a m t st =
        rbind (task_region_indices (np_rng st) t (mem_size a) (classes_per_task a))
          (\<lambda>(i1, h1).
             rbind (er_ringbuffer_indices h1 (episodic_filled_counter st) (episodic_mem_size a m)
                      (eps_mem_batch a))
               (\<lambda>(i2, h2). Inr ([i1, i2], h2)))) \<and>
   (model_imp_method m = A_GEM \<and> 0 < t \<longrightarrow>
      replay_indices a m t st =
        rbind (agem_mem_sample_mask (np_rng st) (episodic_filled_counter st) (eps_mem_batch a))
          (\<lambda>(i, h). Inr ([i], h)))"
proof -
  have sh: "mset i = mset sel" if "np_random_shuffle g1 sel = (i, h)" for g1 h and i sel :: "int list"
    using mset_np_random_shuffle [of g1 sel] that by simp
  have 1: "\<exists>sel g1.
         (if reservoir_mem_filled seen mem < k
          then Inr (np_arange 0 (reservoir_mem_filled seen mem), g)
          else np_random_choice g (reservoir_mem_filled seen mem) k) = Inr (sel, g1) \<and>
         np_random_shuffle g1 sel = (idx, g') \<and> mset idx = mset sel"
    if "er_reservoir_indices g seen mem k = Inr (idx, g')"
  proof -
    from that obtain sel g1 where
      "(if reservoir_mem_filled seen mem < k
          then Inr (np_arange 0 (reservoir_mem_filled seen mem), g)
          else np_random_choice g (reservoir_mem_filled seen mem) k) = Inr (sel, g1)"
      and "np_random_shuffle g1 sel = (idx, g')"
      by (auto simp: er_reservoir_indices_def rbind_Inr_iff Let_def)
    with sh show ?thesis by blast
  qed
  have 2: "\<exists>sel g1.
         (if ringbuffer_mem_filled filled_counter mem \<le> k
          then Inr (np_arange 0 (ringbuffer_mem_filled filled_counter mem), g)
          else np_random_choice g (ringbuffer_mem_filled filled_counter mem) k) = Inr (sel, g1) \<and>
         np_random_shuffle g1 sel = (idx, g') \<and> mset idx = mset sel"
    if "er_ringbuffer_indices g filled_counter mem k = Inr (idx, g')"
  proof -
    from that obtain sel g1 where
      "(if ringbuffer_mem_filled filled_counter mem \<le> k
          then Inr (np_arange 0 (ringbuffer_mem_filled filled_counter mem), g)
          else np_random_choice g (ringbuffer_mem_filled filled_counter mem) k) = Inr (sel, g1)"
      and "np_random_shuffle g1 sel = (idx, g')"
      by (auto simp: er_ringbuffer_indices_def rbind_Inr_iff Let_def)
    with sh show ?thesis by blast
  qed
  have 3: "\<exists>tt g1.
         0 \<le> tt \<and> tt < int t \<and>
         np_random_shuffle g1 (np_arange (tt * msize * cpt) (tt * msize * cpt + msize * cpt))
           = (idx, g') \<and>
         mset idx = mset (np_arange (tt * msize * cpt) (tt * msize * cpt + msize * cpt))"
    if "task_region_indices g t msize cpt = Inr (idx, g')"
  proof -
    from that obtain picked g1 tt where
      c: "np_random_choice g (int t) 1 = Inr (picked, g1)" and
      p: "np_getitem picked 0 = Inr tt" and
      s: "np_random_shuffle g1 (np_arange (tt * msize * cpt) (tt * msize * cpt + msize * cpt))
            = (idx, g')"
      by (auto simp: task_region_indices_def rbind_Inr_iff Let_def)
    from np_getitem_mem [OF p] np_random_choice_props(2) [OF c] have "0 \<le> tt \<and> tt < int t"
      by auto
    with s sh [OF s] show ?thesis by blast
  qed
  have 4: "(filled_counter \<le> k \<longrightarrow> idx = np_arange 0 filled_counter \<and> g' = g) \<and>
      (k < filled_counter \<longrightarrow> np_random_choice g filled_counter k = Inr (idx, g'))"
    if "agem_mem_sample_mask g filled_counter k = Inr (idx, g')"
    using that by (auto simp: agem_mem_sample_mask_def split: if_splits)
  have 5: "model_imp_method m = ER_Reservoir \<longrightarrow>
      replay_indices a m t st =
        rbind (er_reservoir_indices (np_rng st) (examples_seen_so_far st) (episodic_mem_size a m)
                 (eps_mem_batch a)) (\<lambda>(i, h). Inr ([i], h))"
    by (simp add: replay_indices_def)
  have 6: "model_imp_method m = ER_Ringbuffer \<longrightarrow>
      replay_indices a m t st =
        rbind (er_ringbuffer_indices (np_rng st) (episodic_filled_counter st)
                 (episodic_mem_size a m) (eps_mem_batch a)) (\<lambda>(i, h). Inr ([i], h))"
    by (simp add: replay_indices_def)
  have 7: "model_imp_method m = ER_SUBSPACE \<and> 0 < t \<longrightarrow>
      replay_indices a m t st =
        rbind (task_region_indices (np_rng st) t (mem_size a) (classes_per_task a))
          (\<lambda>(i, h). Inr ([i], h))"
    by (simp add: replay_indices_def)
  have 8: "model_imp_method m = ER_SUBSPACE_GP \<and> 0 < t \<longrightarrow>
      replay_indices a m t st =
        rbind (task_region_indices (np_rng st) t (mem_size a) (classes_per_task a))
          (\<lambda>(i1, h1).
             rbind (er_ringbuffer_indices h1 (episodic_filled_counter st) (episodic_mem_size a m)
                      (eps_mem_batch a))
               (\<lambda>(i2, h2). Inr ([i1, i2], h2)))"
    by (simp add: replay_indices_def)
  have 9: "model_imp_method m = A_GEM \<and> 0 < t \<longrightarrow>
      replay_indices a m t st =
        rbind (agem_mem_sample_mask (np_rng st) (episodic_filled_counter st) (eps_mem_batch a))
          (\<lambda>(i, h). Inr ([i], h))"
    by (simp add: replay_indices_def)
  from 1 2 3 4 5 6 7 8 9 show ?thesis
    by (intro conjI impI) blast+
qed

theorem er_branches_shuffle_selection_witness:
  "map_sum id fst (er_ringbuffer_indices ex_rng 3 4 8) = Inr [2, 0, 1] \<and>
   ringbuffer_mem_filled 3 4 \<le> 8 \<and>
   (\<exists>idx g' sel g1.
      er_ringbuffer_indices ex_rng 3 4 8 = Inr (idx, g') \<and>
      Inr (np_arange 0 (ringbuffer_mem_filled 3 4), ex_rng) = (Inr (sel, g1) :: (int list \<times> rng) result) \<and>
      np_random_shuffle g1 sel = (idx, g') \<and> mset idx = mset sel)"
proof -
  have e: "map_sum id fst (er_ringbuffer_indices ex_rng 3 4 8) = Inr [2, 0, 1]"
    by code_simp
  have f: "ringbuffer_mem_filled 3 4 \<le> 8"
    by (simp add: ringbuffer_mem_filled_def)
  from e obtain g' where r: "er_ringbuffer_indices ex_rng 3 4 8 = Inr ([2, 0, 1], g')"
    by (cases "er_ringbuffer_indices ex_rng 3 4 8") auto
  note c2 = conjunct1 [OF conjunct2 [OF er_branches_shuffle_selection
      [where g = ex_rng and filled_counter = 3 and mem = 4 and k = 8 and idx = "[2, 0, 1]"
         and g' = g']]]
  from c2 r have "\<exists>sel g1.
      (if ringbuffer_mem_filled 3 4 \<le> 8
       then Inr (np_arange 0 (ringbuffer_mem_filled 3 4), ex_rng)
       else np_random_choice ex_rng (ringbuffer_mem_filled 3 4) 8) = Inr (sel, g1) \<and>
      np_random_shuffle g1 sel = ([2, 0, 1], g') \<and> mset [2, 0, 1] = mset sel"
    by blast
  with f have "\<exists>sel g1.
      Inr (np_arange 0 (ringbuffer_mem_filled 3 4), ex_rng) = (Inr (sel, g1) :: (int list \<times> rng) result) \<and>
      np_random_shuffle g1 sel = ([2, 0, 1], g') \<and> mset [2, 0, 1] = mset sel"
    by simp
  with e f r show ?thesis by blast
qed

text \<open>
  The A-GEM draw with three filled slots and \<open>k = 8\<close> is \<open>[0, 1, 2]\<close>, where a shuffle
  with the generator in the same state gives \<open>[2, 0, 1]\<close>.
\<close>

theorem agem_selection_not_shuffled:
  "map_sum id fst (agem_mem_sample_mask ex_rng 3 8) = Inr [0, 1, 2] \<and>
   fst (np_random_shuffle ex_rng (np_arange 0 3)) = [2, 0, 1] \<and>
   map_sum id fst (agem_mem_sample_mask ex_rng 3 8)
     \<noteq> Inr (fst (np_random_shuffle ex_rng (np_arange 0 3)))"
proof -
  have a: "map_sum id fst (agem_mem_sample_mask ex_rng 3 8) = Inr [0, 1, 2]"
    by code_simp
  have b: "fst (np_random_shuffle ex_rng (np_arange 0 3)) = [2, 0, 1]"
    by code_simp
  from a b show ?thesis by simp
qed

subsection \<open>Where a FIFO write lands\<close>

lemma class_position_belongs:
  "class_position lab btl j = Some (i, c) \<Longrightarrow> belongs lab c"
  by (induction btl arbitrary: j) (auto split: if_splits)

lemma np_getitem_nonneg:
  "0 \<le> i \<Longrightarrow> np_getitem xs i = Inr v \<longleftrightarrow> i < int (length xs) \<and> v = xs ! nat i"
  by (auto simp: np_getitem_def Let_def)

lemma np_setitem_nonneg:
  "0 \<le> i \<Longrightarrow> np_setitem xs i v = Inr ys \<longleftrightarrow> i < int (length xs) \<and> ys = xs[nat i := v]"
  by (auto simp: np_setitem_def Let_def)

lemma sint_count: "n < 2 ^ 31 \<Longrightarrow> sint (of_nat n :: 32 word) = int n"
proof -
  assume "n < 2 ^ 31"
  then have "int n < 2 ^ 31"
    by (metis of_nat_less_iff of_nat_numeral of_nat_power)
  then have "signed_take_bit 31 (int n) = int n"
    by (intro signed_take_bit_int_eq_self) simp_all
  then show ?thesis
    by (simp add: signed_of_nat)
qed

lemma fifo_write_count:
  assumes "fifo_write ex btl q base (imgs, labs, cnt) = Inr (imgs', labs', cnt')"
  shows "\<exists>i c. class_position (snd ex) btl 0 = Some (i, c) \<and> 0 \<le> c \<and> c < int (length cnt) \<and>
    cnt' = cnt[nat c := cnt ! nat c + 1]"
proof -
  from assms obtain slot c where fs: "fifo_slot (snd ex) btl q base cnt = Inr (slot, c)"
    and g: "\<exists>n. np_getitem cnt c = Inr n \<and> np_setitem cnt c (n + 1) = Inr cnt'"
    by (auto simp: fifo_write_def rbind_Inr_iff)
  from fs obtain i where cp: "class_position (snd ex) btl 0 = Some (i, c)"
    by (auto simp: fifo_slot_def rbind_Inr_iff split: option.splits if_splits)
  from class_position_belongs [OF cp] have c0: "0 \<le> c"
    by (simp add: belongs_def)
  with g have "c < int (length cnt) \<and> cnt' = cnt[nat c := cnt ! nat c + 1]"
    by (auto simp: np_getitem_nonneg np_setitem_nonneg)
  with cp c0 show ?thesis by blast
qed

lemma fifo_call_count:
  assumes "fifo_call q call (imgs, labs, cnt) = Inr (imgs', labs', cnt')"
    and "0 \<le> c" and "c < int (length cnt)"
  shows "length cnt' = length cnt \<and>
    cnt' ! nat c = cnt ! nat c + (if written_class call = Some c then 1 else 0)"
proof -
  obtain ex btl base where call: "call = (ex, btl, base)"
    by (cases call)
  with assms(1) have w: "fifo_write ex btl q base (imgs, labs, cnt) = Inr (imgs', labs', cnt')"
    by (simp add: fifo_call_def)
  from fifo_write_count [OF w] obtain i c' where
    cp: "class_position (snd ex) btl 0 = Some (i, c')" and c': "0 \<le> c'" "c' < int (length cnt)"
    and u: "cnt' = cnt[nat c' := cnt ! nat c' + 1]"
    by blast
  have wc: "written_class call = Some c'"
    using cp call by (simp add: written_class_def)
  show ?thesis
  proof (cases "c' = c")
    case True
    with u wc assms(2,3) show ?thesis by simp
  next
    case False
    with assms(2) c'(1) have "nat c' \<noteq> nat c" by simp
    with u wc False show ?thesis by simp
  qed
qed

lemma fifo_calls_count:
  assumes "for_each (fifo_call q) calls (imgs, labs, cnt) = Inr (imgs', labs', cnt')"
    and "0 \<le> c" and "c < int (length cnt)"
  shows "length cnt' = length cnt \<and> cnt' ! nat c = cnt ! nat c + of_nat (writes_of c calls)"
  using assms
proof (induction calls arbitrary: imgs labs cnt)
  case Nil
  then show ?case by (simp add: writes_of_def)
next
  case (Cons call calls)
  from Cons.prems(1) obtain i1 l1 c1 where
    one: "fifo_call q call (imgs, labs, cnt) = Inr (i1, l1, c1)" and
    rest: "for_each (fifo_call q) calls (i1, l1, c1) = Inr (imgs', labs', cnt')"
    by (auto simp: rbind_Inr_iff)
  note a = fifo_call_count [OF one Cons.prems(2,3)]
  from a Cons.prems(3) have "c < int (length c1)" by simp
  from Cons.IH [OF rest Cons.prems(2) this] a show ?case
    by (simp add: writes_of_def)
qed

text \<open>
  C6, as amended. Start from zeroed counts and let any sequence of FIFO writes succeed,
  of any classes and tasks in any order. If fewer than \<open>2^31\<close> of them wrote class \<open>c\<close>,
  say \<open>n\<close>, then \<open>count_cls[c]\<close> is \<open>n\<close> and the next write for \<open>c\<close> lands at slot
  \<open>class_offset + (n mod quota)\<close>, with \<open>class_offset = base + i * quota\<close> for the class at
  position \<open>i\<close> of the task's label list; that write stores the image and the label
  there and adds one to \<open>count_cls[c]\<close>.
\<close>

theorem fifo_write_slot:
  assumes "for_each (fifo_call quota) calls (imgs0, labs0, replicate (nat TOTAL_CLASSES) 0)
      = Inr (imgs, labs, cnt)"
    and "class_position lab btl 0 = Some (i, c)"
    and "writes_of c calls < 2 ^ 31"
    and "0 < quota" and "c < TOTAL_CLASSES"
  shows "sint (cnt ! nat c) = int (writes_of c calls) \<and>
    fifo_slot lab btl quota base cnt
      = Inr (class_offset base quota i + int (writes_of c calls) mod quota, c) \<and>
    fifo_next_slot quota calls (imgs0, labs0, replicate (nat TOTAL_CLASSES) 0) lab btl base
      = Inr (class_offset base quota i + int (writes_of c calls) mod quota, c) \<and>
    (\<forall>im imgs' labs' cnt'.
       fifo_write (im, lab) btl quota base (imgs, labs, cnt) = Inr (imgs', labs', cnt') \<longrightarrow>
       cnt' ! nat c = cnt ! nat c + 1 \<and>
       (0 \<le> class_offset base quota i \<longrightarrow>
          imgs' ! nat (class_offset base quota i + int (writes_of c calls) mod quota) = im \<and>
          labs' ! nat (class_offset base quota i + int (writes_of c calls) mod quota) = lab))"
proof -
  let ?slot = "class_offset base quota i + int (writes_of c calls) mod quota"
  from class_position_belongs [OF assms(2)] have c0: "0 \<le> c"
    by (simp add: belongs_def)
  have cl: "c < int (length (replicate (nat TOTAL_CLASSES) (0 :: 32 word)))"
    using assms(5) by (simp add: TOTAL_CLASSES_def)
  from fifo_calls_count [OF assms(1) c0 cl] assms(5) c0
  have len: "length cnt = nat TOTAL_CLASSES" and w: "cnt ! nat c = of_nat (writes_of c calls)"
    by (simp_all add: TOTAL_CLASSES_def)
  from w sint_count [OF assms(3)] have s: "sint (cnt ! nat c) = int (writes_of c calls)"
    by simp
  have g: "np_getitem cnt c = Inr (cnt ! nat c)"
    using c0 len assms(5) by (simp add: np_getitem_nonneg TOTAL_CLASSES_def)
  have fs: "fifo_slot lab btl quota base cnt = Inr (?slot, c)"
    using assms(2,4) g s by (simp add: fifo_slot_def rbind_def)
  have nx: "fifo_next_slot quota calls (imgs0, labs0, replicate (nat TOTAL_CLASSES) 0) lab btl base
      = Inr (?slot, c)"
    using assms(1) fs by (simp add: fifo_next_slot_def rbind_def)
  have wr: "cnt' ! nat c = cnt ! nat c + 1 \<and>
       (0 \<le> class_offset base quota i \<longrightarrow> imgs' ! nat ?slot = im \<and> labs' ! nat ?slot = lab)"
    if "fifo_write (im, lab) btl quota base (imgs, labs, cnt) = Inr (imgs', labs', cnt')"
    for im imgs' labs' cnt'
  proof -
    from that fs g have si: "np_setitem imgs ?slot im = Inr imgs'"
      and sl: "np_setitem labs ?slot lab = Inr labs'"
      and sc: "np_setitem cnt c (cnt ! nat c + 1) = Inr cnt'"
      by (auto simp: fifo_write_def rbind_Inr_iff)
    have "nat c < length cnt"
      using c0 len assms(5) by (simp add: TOTAL_CLASSES_def)
    with sc c0 have "cnt' ! nat c = cnt ! nat c + 1"
      by (simp add: np_setitem_nonneg)
    moreover have "imgs' ! nat ?slot = im \<and> labs' ! nat ?slot = lab"
      if "0 \<le> class_offset base quota i"
    proof -
      from that assms(4) have nn: "0 \<le> ?slot" by simp
      with si sl have "?slot < int (length imgs)" "imgs' = imgs[nat ?slot := im]"
        and "?slot < int (length labs)" "labs' = labs[nat ?slot := lab]"
        by (simp_all add: np_setitem_nonneg)
      moreover from this nn have "nat ?slot < length imgs" "nat ?slot < length labs"
        by linarith+
      ultimately show ?thesis by simp
    qed
    ultimately show ?thesis by simp
  qed
  from s fs nx wr show ?thesis by blast
qed

theorem fifo_write_slot_witness:
  "map_sum id (\<lambda>(imgs, labs, cnt). (imgs, map sint (take 2 cnt)))
     (for_each (fifo_call 3) ex_calls (ex_buffer 6)) = Inr ([13, 11, 12, 20, 21, 0], [4, 2]) \<and>
   class_position [1, 0] [0, 1] 0 = Some (0, 0) \<and>
   writes_of 0 ex_calls = 4 \<and>
   fifo_next_slot 3 ex_calls (ex_buffer 6) [1, 0] [0, 1] 0 = Inr (1, 0) \<and>
   class_offset 0 3 0 + int (writes_of 0 ex_calls) mod 3 = 1"
proof -
  have ev: "map_sum id (\<lambda>(imgs, labs, cnt). (imgs, map sint (take 2 cnt)))
     (for_each (fifo_call 3) ex_calls (ex_buffer 6)) = Inr ([13, 11, 12, 20, 21, 0], [4, 2])"
    by code_simp
  then obtain imgs labs cnt where
    run: "for_each (fifo_call 3) ex_calls
      (replicate 6 0, replicate 6 [], replicate (nat TOTAL_CLASSES) 0) = Inr (imgs, labs, cnt)"
    by (cases "for_each (fifo_call 3) ex_calls (ex_buffer 6)") (auto simp: ex_buffer_def)
  have cp: "class_position [1, 0] [0, 1] 0 = Some (0, 0)"
    by (simp add: belongs_def)
  have w: "writes_of 0 ex_calls = 4"
    by code_simp
  have n: "writes_of 0 ex_calls < 2 ^ 31"
    using w by simp
  have q: "(0 :: int) < 3" and c: "0 < TOTAL_CLASSES"
    by (simp_all add: TOTAL_CLASSES_def)
  from fifo_write_slot [OF run cp n q c, of 0]
  have "fifo_next_slot 3 ex_calls (replicate 6 0, replicate 6 [], replicate (nat TOTAL_CLASSES) 0)
      [1, 0] [0, 1] 0 = Inr (class_offset 0 3 0 + int (writes_of 0 ex_calls) mod 3, 0)"
    by blast
  moreover have "class_offset 0 3 0 + int (writes_of 0 ex_calls) mod 3 = 1"
    using w by (simp add: class_offset_def)
  ultimately show ?thesis
    using ev cp w by (simp add: ex_buffer_def)
qed

text \<open>
  The counter is a 32-bit integer: after \<open>2^31\<close> writes of one class it reads
  \<open>-2^31\<close>, and with a quota of 13 the next write lands at slot 2 of the region, not at
  slot \<open>2^31 mod 13 = 11\<close>.
\<close>

lemma fifo_write_succeeds:
  assumes cp: "class_position lab btl 0 = Some (i, c)" and q: "0 < quota"
    and c: "c < int (length cnt)"
    and lo: "0 \<le> class_offset base quota i"
    and hi: "class_offset base quota i + quota \<le> int (length imgs)"
    and ll: "length labs = length imgs"
  shows "\<exists>imgs' labs' cnt'.
    fifo_write (im, lab) btl quota base (imgs, labs, cnt) = Inr (imgs', labs', cnt') \<and>
    length imgs' = length imgs \<and> length labs' = length labs \<and> length cnt' = length cnt"
proof -
  let ?slot = "class_offset base quota i + sint (cnt ! nat c) mod quota"
  from class_position_belongs [OF cp] have c0: "0 \<le> c"
    by (simp add: belongs_def)
  have g: "np_getitem cnt c = Inr (cnt ! nat c)"
    using c0 c by (simp add: np_getitem_nonneg)
  have fs: "fifo_slot lab btl quota base cnt = Inr (?slot, c)"
    using cp q g by (simp add: fifo_slot_def rbind_def)
  have m: "0 \<le> sint (cnt ! nat c) mod quota" "sint (cnt ! nat c) mod quota < quota"
    using q by simp_all
  with lo hi have s: "0 \<le> ?slot" "?slot < int (length imgs)"
    by linarith+
  have "np_setitem imgs ?slot im = Inr (imgs[nat ?slot := im])"
    and "np_setitem labs ?slot lab = Inr (labs[nat ?slot := lab])"
    and "np_setitem cnt c (cnt ! nat c + 1) = Inr (cnt[nat c := cnt ! nat c + 1])"
    using s ll c0 c by (simp_all add: np_setitem_nonneg)
  with fs g show ?thesis
    by (simp add: fifo_write_def rbind_def)
qed

lemma fifo_call_apply:
  "fifo_call quota (ex, btl, base) buf = fifo_write ex btl quota base buf"
  by (simp add: fifo_call_def)

lemma fifo_repeat_succeeds:
  assumes cp: "class_position lab btl 0 = Some (i, c)" and q: "0 < quota"
    and c: "c < int (length cnt)"
    and lo: "0 \<le> class_offset base quota i"
    and hi: "class_offset base quota i + quota \<le> int (length imgs)"
    and ll: "length labs = length imgs"
  shows "\<exists>imgs' labs' cnt'.
    for_each (fifo_call quota) (replicate n ((im, lab), btl, base)) (imgs, labs, cnt)
      = Inr (imgs', labs', cnt')"
  using c hi ll
proof (induction n arbitrary: imgs labs cnt)
  case 0
  then show ?case by simp
next
  case (Suc n)
  from fifo_write_succeeds [OF cp q Suc.prems(1) lo Suc.prems(2,3), of im]
  obtain i1 l1 c1 where
    w: "fifo_write (im, lab) btl quota base (imgs, labs, cnt) = Inr (i1, l1, c1)" and
    len: "length i1 = length imgs" "length l1 = length labs" "length c1 = length cnt"
    by blast
  from Suc.IH [of c1 i1 l1] Suc.prems len obtain imgs' labs' cnt' where
    "for_each (fifo_call quota) (replicate n ((im, lab), btl, base)) (i1, l1, c1)
      = Inr (imgs', labs', cnt')"
    by auto
  with w show ?case
    by (simp add: fifo_call_apply rbind_def)
qed

lemma writes_of_replicate:
  "writes_of c (replicate n call) = (if written_class call = Some c then n else 0)"
  by (simp add: writes_of_def)

theorem fifo_slot_after_int32_overflow:
  "fifo_next_slot 13 (replicate (2 ^ 31) ((7, [0, 1]), [1], 0)) (ex_buffer 13) [0, 1] [1] 0
     = Inr (2, 1) \<and>
   writes_of 1 (replicate (2 ^ 31) ((7 :: int, [0, 1]), [1], 0)) = 2 ^ 31 \<and>
   class_offset 0 13 0 + int (2 ^ 31) mod 13 = 11"
proof -
  let ?call = "((7 :: int, [0, 1 :: int]), [1 :: int], 0 :: int)"
  have cp: "class_position [0, 1] [1] 0 = Some (0, 1)"
    by (simp add: belongs_def)
  have wc: "written_class ?call = Some 1"
    by (simp add: written_class_def belongs_def)
  have w: "writes_of 1 (replicate (2 ^ 31) ?call) = 2 ^ 31"
    using wc by (simp add: writes_of_replicate)
  have "\<exists>imgs labs cnt.
      for_each (fifo_call 13) (replicate (2 ^ 31) ?call)
        (replicate 13 0, replicate 13 [], replicate (nat TOTAL_CLASSES) 0) = Inr (imgs, labs, cnt)"
    by (rule fifo_repeat_succeeds [OF cp]) (simp_all add: class_offset_def TOTAL_CLASSES_def)
  then obtain imgs labs cnt where
    run: "for_each (fifo_call 13) (replicate (2 ^ 31) ?call)
        (replicate 13 0, replicate 13 [], replicate (nat TOTAL_CLASSES) 0) = Inr (imgs, labs, cnt)"
    by blast
  have "length cnt = length (replicate (nat TOTAL_CLASSES) (0 :: 32 word)) \<and>
      cnt ! nat 1 = replicate (nat TOTAL_CLASSES) (0 :: 32 word) ! nat 1
        + of_nat (writes_of 1 (replicate (2 ^ 31) ?call))"
    by (rule fifo_calls_count [OF run]) (simp_all add: TOTAL_CLASSES_def)
  with w have len: "length cnt = 100" and c1: "cnt ! 1 = of_nat (2 ^ 31)"
    by (simp_all add: TOTAL_CLASSES_def)
  have "np_getitem cnt 1 = Inr (cnt ! 1)"
    using len by (simp add: np_getitem_def)
  with cp c1 have "fifo_slot [0, 1] [1] 13 0 cnt = Inr (2, 1)"
    by (simp add: fifo_slot_def rbind_def class_offset_def)
  with run have "fifo_next_slot 13 (replicate (2 ^ 31) ?call) (ex_buffer 13) [0, 1] [1] 0
     = Inr (2, 1)"
    by (simp add: fifo_next_slot_def ex_buffer_def rbind_def)
  moreover have "class_offset 0 13 0 + int (2 ^ 31) mod 13 = 11"
    by (simp add: class_offset_def)
  ultimately show ?thesis using w by simp
qed

end
